theory Spec2Isabelle
  imports Main
begin

section \<open>The TCP socket endpoint of libnekit (src/transport/tcp_socket.cc)\<close>

text \<open>
  A shallow embedding of \<^verbatim>\<open>nekit::transport::TcpSocket\<close>. The object's members are a
  record, every assertion (\<^verbatim>\<open>BOOST_ASSERT\<close>) is a branch that returns a fault, the
  shared cancelation flags live in an explicit store, and the lambdas handed to the
  event loop are first-order closures kept in a list until the event loop runs them.
  Calls to the collaborators of the socket (the socket primitive, the event loop, the
  connector, the buffer, the caller's handler) are recorded in a trace.
\<close>

subsection \<open>Error codes\<close>

text \<open>
  A \<^verbatim>\<open>boost::system::error_code\<close> is a category and an integer value. The categories
  are those of \<^verbatim>\<open>boost::asio::error\<close>; any other category is \<open>other_category\<close>.
\<close>

datatype category =
    system_category
  | netdb_category
  | addrinfo_category
  | misc_category
  | other_category nat

datatype boost_error_code = boost_error_code (ec_category: category) (ec_value: int)

text \<open>
  The enumerators of \<^verbatim>\<open>boost::asio::error::basic_errors\<close> that the source names are the
  platform's errno constants; the values below are those of Linux. The enumerator
  \<^verbatim>\<open>misc_errors::eof\<close> is 2 on every platform.
\<close>

definition operation_aborted :: int where "operation_aborted = 125"
definition connection_aborted :: int where "connection_aborted = 103"
definition connection_reset :: int where "connection_reset = 104"
definition host_unreachable :: int where "host_unreachable = 113"
definition network_down :: int where "network_down = 100"
definition network_reset :: int where "network_reset = 102"
definition network_unreachable :: int where "network_unreachable = 101"
definition timed_out :: int where "timed_out = 110"
definition not_connected :: int where "not_connected = 107"
definition eof :: int where "eof = 2"

text \<open>
  A \<^verbatim>\<open>std::error_code\<close> as the socket produces it: an enumerator of the transport's
  \<^verbatim>\<open>ErrorCode\<close>, \<^verbatim>\<open>NEKitErrorCode::Canceled\<close>, or the platform error wrapped unchanged by
  \<^verbatim>\<open>std::make_error_code(ec)\<close>.
\<close>

datatype error_code =
    NoError
  | EndOfFile
  | UnknownError
  | ConnectionAborted
  | ConnectionReset
  | HostUnreachable
  | NetworkDown
  | NetworkReset
  | NetworkUnreachable
  | TimedOut
  | Canceled
  | make_error_code boost_error_code

text \<open>\<^verbatim>\<open>if (ec)\<close> on a boost error code: the value is not zero.\<close>

definition failed :: "boost_error_code \<Rightarrow> bool" where
  "failed ec = (ec_value ec \<noteq> 0)"

text \<open>\<^verbatim>\<open>if (ec)\<close> on a \<^verbatim>\<open>std::error_code\<close>.\<close>

fun is_error :: "error_code \<Rightarrow> bool" where
  "is_error NoError = False"
| "is_error (make_error_code ec) = failed ec"
| "is_error _ = True"

subsection \<open>Cancelation tokens\<close>

text \<open>
  Modelled from the spec: \<^verbatim>\<open>utils::Cancelable\<close> (nekit/utils/cancelable.h is not part of
  the sources). A token is a shared flag with the two states live and canceled; every
  copy names the same flag; \<open>Cancel\<close> sets it, for good; \<open>canceled\<close> reads it. The store
  counts the flags allocated so far and holds the value of each; a \<open>Cancelable\<close> is the
  number of its flag, and a new one allocates the next flag, live.
\<close>

type_synonym Cancelable = nat

record token_store =
  allocated :: nat
  flag :: "Cancelable \<Rightarrow> bool"

definition new_Cancelable :: "token_store \<Rightarrow> Cancelable \<times> token_store" where
  "new_Cancelable ts =
     (allocated ts,
      ts\<lparr>allocated := Suc (allocated ts), flag := (flag ts)(allocated ts := False)\<rparr>)"

definition Cancel :: "Cancelable \<Rightarrow> token_store \<Rightarrow> token_store" where
  "Cancel c ts = ts\<lparr>flag := (flag ts)(c := True)\<rparr>"

definition canceled :: "token_store \<Rightarrow> Cancelable \<Rightarrow> bool" where
  "canceled ts c = flag ts c"

subsection \<open>Buffers\<close>

text \<open>
  Modelled from the spec: \<^verbatim>\<open>utils::Buffer\<close> (nekit/utils/buffer.h is not part of the
  sources). A buffer is an ordered list of chunks, each a contiguous region given by
  its address and its length; its logical size is the sum of the lengths;
  \<open>WalkInternalChunk\<close> visits every chunk in order; \<open>ShrinkBack n\<close> removes \<open>n\<close> bytes from
  the back and is a contract fault when the buffer holds fewer than \<open>n\<close> bytes.
\<close>

type_synonym span = "nat \<times> nat"

datatype Buffer = Buffer (chunks: "span list")

definition Buffer_size :: "Buffer \<Rightarrow> nat" where
  "Buffer_size b = sum_list (map snd (chunks b))"

definition WalkInternalChunk :: "Buffer \<Rightarrow> span list" where
  "WalkInternalChunk b = chunks b"

fun shrink_from :: "nat \<Rightarrow> span list \<Rightarrow> span list" where
  "shrink_from n [] = []"
| "shrink_from n ((d, s) # cs) =
     (if n = 0 then (d, s) # cs
      else if n < s then (d, s - n) # cs
      else shrink_from (n - s) cs)"

definition ShrinkBack :: "nat \<Rightarrow> Buffer \<Rightarrow> Buffer option" where
  "ShrinkBack n b =
     (if Buffer_size b < n then None
      else Some (Buffer (rev (shrink_from n (rev (chunks b))))))"

text \<open>
  \<^verbatim>\<open>buffer->size() - bytes_transferred\<close> on \<^verbatim>\<open>size_t\<close> (64 bits): the difference wraps
  around when the second operand is the larger one.
\<close>

definition size_t_sub :: "nat \<Rightarrow> nat \<Rightarrow> nat" where
  "size_t_sub a b = (if b \<le> a then a - b else a + 2 ^ 64 - b)"

subsection \<open>The socket object\<close>

datatype State = Closed | Establishing | Established | Closing

type_synonym Endpoint = nat
type_synonym handler = nat
type_synonym raw_socket = nat

record Session =
  current_endpoint :: "Endpoint option"

text \<open>
  The members of \<^verbatim>\<open>TcpSocket\<close>, each under its name without the trailing underscore. A \<^verbatim>\<open>std::unique_ptr\<close> is an option (\<open>None\<close> after it has
  been moved from); \<open>connector\<close> holds the target its \<^verbatim>\<open>TcpConnector\<close> was made for.
\<close>

record TcpSocket =
  socket :: raw_socket
  session :: Session
  connect_to :: "Endpoint option"
  connector :: "Endpoint option"
  write_buffer :: "span list option"
  read_buffer :: "span list option"
  read_cancelable :: Cancelable
  write_cancelable :: Cancelable
  report_cancelable :: Cancelable
  connect_cancelable :: Cancelable
  state :: State
  read_closed :: bool
  write_closed :: bool
  reading :: bool
  writing :: bool

subsection \<open>The error translator\<close>

text \<open>
  \<^verbatim>\<open>TcpSocket::ConvertBoostError\<close>, a const member function: the socket is its first
  argument. The \<^verbatim>\<open>switch\<close> has no default, so every value it does not list falls
  through to the last \<^verbatim>\<open>return\<close>.
\<close>

definition ConvertBoostError :: "TcpSocket \<Rightarrow> boost_error_code \<Rightarrow> error_code" where
  "ConvertBoostError this ec =
     (if ec_category ec = system_category then
        (if ec_value ec = operation_aborted then Canceled
         else if ec_value ec = connection_aborted then ConnectionAborted
         else if ec_value ec = connection_reset then ConnectionReset
         else if ec_value ec = host_unreachable then HostUnreachable
         else if ec_value ec = network_down then NetworkDown
         else if ec_value ec = network_reset then NetworkReset
         else if ec_value ec = network_unreachable then NetworkUnreachable
         else if ec_value ec = timed_out then TimedOut
         else make_error_code ec)
      else if ec_category ec = misc_category then
        (if ec_value ec = eof then EndOfFile else make_error_code ec)
      else make_error_code ec)"

subsection \<open>The world around the socket\<close>

text \<open>
  What the socket asks of its collaborators, in the order it asks: the two asynchronous
  requests on the socket primitive with the spans they are given (for the read request
  \<open>None\<close> when the sequence it is given is not the span list, see \<open>Read\<close>), the send-direction
  shutdown, a continuation posted to the event loop, a connect request to the connector,
  a shrink of a buffer, and a call of a handler supplied by the caller with the buffer
  (for a data handler) and the error it is passed.
\<close>

text \<open>
  A handler is code of the caller. Every lambda of the source calls it last, so the model
  records the call and whatever the handler goes on to do with the socket is a later
  action of the run. The destructor, which cancels the four tokens of the socket and ends
  its life, is not part of the model.
\<close>

datatype event =
    async_read_some "span list option"
  | async_write "span list"
  | shutdown_send
  | post
  | connector_Connect Endpoint
  | ShrinkBack_call nat
  | handler_call handler "Buffer option" error_code

text \<open>
  The lambdas of the source with what they capture, in the order of the capture lists
  (\<^verbatim>\<open>this\<close> apart): \<open>ReadLambda buffer buffer_wrapper handler cancelable\<close>,
  \<open>WriteLambda buffer handler cancelable\<close>, \<open>CloseWriteLambda handler cancelable error\<close>,
  and \<open>handler cancelable\<close> for the other four.
\<close>

datatype closure =
    ReadLambda Buffer "span list" handler Cancelable
  | WriteLambda Buffer handler Cancelable
  | CloseWriteLambda handler Cancelable error_code
  | OpenLambda handler Cancelable
  | ContinueLambda handler Cancelable
  | ReportErrorLambda handler Cancelable
  | ConnectLambda handler Cancelable

text \<open>
  A continuation waiting to be run: \<open>Queued\<close> when the socket primitive or the event loop
  holds it, \<open>Connecting t\<close> when the connector holds it under the connector's own token
  \<open>t\<close>.
\<close>

datatype pending_op =
    Queued closure
  | Connecting Cancelable closure

text \<open>What a continuation is called with.\<close>

datatype result =
    io_result boost_error_code nat
  | connect_result raw_socket error_code
  | posted

text \<open>
  What stops a call: an assertion of the source that fails, a \<^verbatim>\<open>std::unique_ptr\<close> that
  is dereferenced while empty, or a continuation that the event loop is asked to run
  although it is not waiting (or with the arguments of another kind of continuation).
\<close>

datatype fault = AssertionFailed | NullDereference | NotPending

record world =
  sock :: TcpSocket
  tokens :: token_store
  pending :: "pending_op option list"
  trace :: "event list"

subsection \<open>Read\<close>

text \<open>
  The call of \<^verbatim>\<open>socket_.async_read_some\<close> has two arguments: \<^verbatim>\<open>*read_buffer_\<close>, the span
  list the member points to, and a lambda that captures
  \<^verbatim>\<open>buffer_wrapper{std::move(read_buffer_)}\<close>, so that building it moves the list out of
  the member. C++ leaves the order in which the two arguments are evaluated unspecified,
  and the two orders differ, so the order is the first argument of \<open>Read\<close>. With
  \<open>sequence_first\<close> the pointer is dereferenced while it still owns the list and the
  request receives the spans pushed just before. With \<open>lambda_first\<close> the pointer has
  been emptied when it is dereferenced: the request does not receive the spans (the event
  records \<open>None\<close>), and the call goes on as in the other order. In both orders the list,
  with its spans, ends up in the lambda, and the member is empty-handed (\<open>None\<close>) from
  then on, until the lambda moves the list back on the one path that does so.
\<close>

datatype argument_order = sequence_first | lambda_first

definition Read ::
  "argument_order \<Rightarrow> Buffer \<Rightarrow> handler \<Rightarrow> world \<Rightarrow> fault + Cancelable \<times> world" where
  "Read arg_order buffer handler w =
     (let this = sock w in
      if read_closed this then Inl AssertionFailed
      else if reading this then Inl AssertionFailed
      else if Buffer_size buffer = 0 then Inl AssertionFailed
      else case read_buffer this of
        None \<Rightarrow> Inl AssertionFailed
      | Some v \<Rightarrow>
          if length v \<noteq> 0 then Inl AssertionFailed
          else if state this = Closed then Inl AssertionFailed
          else
            let (c, ts) = new_Cancelable (tokens w);
                spans = v @ WalkInternalChunk buffer;
                received = (case arg_order of
                              sequence_first \<Rightarrow> Some spans
                            | lambda_first \<Rightarrow> None)
            in Inr (c, w\<lparr>sock := this\<lparr>read_cancelable := c, read_buffer := None,
                                         reading := True\<rparr>,
                         tokens := ts,
                         pending := pending w @ [Some (Queued (ReadLambda buffer spans handler c))],
                         trace := trace w @ [async_read_some received]\<rparr>))"

definition ReadLambda_call ::
  "Buffer \<Rightarrow> span list \<Rightarrow> handler \<Rightarrow> Cancelable \<Rightarrow> boost_error_code \<Rightarrow> nat \<Rightarrow> world
     \<Rightarrow> fault + world" where
  "ReadLambda_call buffer buffer_wrapper handler cancelable ec bytes_transferred w =
     (if canceled (tokens w) cancelable then Inr w
      else
        let this = (sock w)\<lparr>reading := False\<rparr> in
        if failed ec then
          let error = ConvertBoostError this ec in
          if error = EndOfFile then
            let this = this\<lparr>read_closed := True\<rparr>;
                this = (if write_closed this \<and> \<not> writing this
                        then this\<lparr>state := Closed\<rparr>
                        else this\<lparr>state := Closing\<rparr>)
            in Inr (w\<lparr>sock := this,
                      trace := trace w @ [handler_call handler (Some buffer) error]\<rparr>)
          else
            let this = this\<lparr>state := Closed, read_closed := True, write_closed := True\<rparr>
            in Inr (w\<lparr>sock := this,
                      tokens := Cancel (write_cancelable this) (tokens w),
                      trace := trace w @ [handler_call handler (Some buffer) error]\<rparr>)
        else if bytes_transferred \<noteq> Buffer_size buffer then
          (let n = size_t_sub (Buffer_size buffer) bytes_transferred in
           case ShrinkBack n buffer of
             None \<Rightarrow> Inl AssertionFailed
           | Some shrunk \<Rightarrow>
               Inr (w\<lparr>sock := this\<lparr>read_buffer := Some []\<rparr>,
                      trace := trace w @ [ShrinkBack_call n,
                                          handler_call handler (Some shrunk) NoError]\<rparr>))
        else
          Inr (w\<lparr>sock := this\<lparr>read_buffer := Some []\<rparr>,
                 trace := trace w @ [handler_call handler (Some buffer) NoError]\<rparr>))"

subsection \<open>Write\<close>

definition Write :: "Buffer \<Rightarrow> handler \<Rightarrow> world \<Rightarrow> fault + Cancelable \<times> world" where
  "Write buffer handler w =
     (let this = sock w in
      if write_closed this then Inl AssertionFailed
      else if writing this then Inl AssertionFailed
      else if Buffer_size buffer = 0 then Inl AssertionFailed
      else case write_buffer this of
        None \<Rightarrow> Inl AssertionFailed
      | Some v \<Rightarrow>
          if length v \<noteq> 0 then Inl AssertionFailed
          else if state this = Closed then Inl AssertionFailed
          else
            let (c, ts) = new_Cancelable (tokens w);
                spans = v @ WalkInternalChunk buffer
            in Inr (c, w\<lparr>sock := this\<lparr>write_cancelable := c, write_buffer := Some spans,
                                         writing := True\<rparr>,
                         tokens := ts,
                         pending := pending w @ [Some (Queued (WriteLambda buffer handler c))],
                         trace := trace w @ [async_write spans]\<rparr>))"

definition WriteLambda_call ::
  "Buffer \<Rightarrow> handler \<Rightarrow> Cancelable \<Rightarrow> boost_error_code \<Rightarrow> nat \<Rightarrow> world \<Rightarrow> fault + world" where
  "WriteLambda_call buffer handler cancelable ec bytes_transferred w =
     (if canceled (tokens w) cancelable then Inr w
      else
        let this = (sock w)\<lparr>writing := False\<rparr> in
        if failed ec then
          let error = ConvertBoostError this ec;
              this = this\<lparr>read_closed := True, write_closed := True, state := Closed\<rparr>
          in Inr (w\<lparr>sock := this,
                    tokens := Cancel (read_cancelable this) (tokens w),
                    trace := trace w @ [handler_call handler None error]\<rparr>)
        else if bytes_transferred \<noteq> Buffer_size buffer then Inl AssertionFailed
        else case write_buffer this of
          None \<Rightarrow> Inl NullDereference
        | Some v \<Rightarrow>
            Inr (w\<lparr>sock := this\<lparr>write_buffer := Some []\<rparr>,
                   trace := trace w @ [handler_call handler None NoError]\<rparr>))"

subsection \<open>CloseWrite\<close>

text \<open>
  The first argument is what \<^verbatim>\<open>socket_.shutdown(shutdown_send, ec)\<close> stores in \<^verbatim>\<open>ec\<close> if
  it is called.
\<close>

definition CloseWrite ::
  "boost_error_code \<Rightarrow> handler \<Rightarrow> world \<Rightarrow> fault + Cancelable \<times> world" where
  "CloseWrite shutdown_ec handler w =
     (let this = sock w in
      if writing this then Inl AssertionFailed
      else if state this = Closed then Inl AssertionFailed
      else
        let (error, this, tr) =
              (if write_closed this then (NoError, this, trace w)
               else (ConvertBoostError this shutdown_ec, this\<lparr>write_closed := True\<rparr>,
                     trace w @ [shutdown_send]));
            (c, ts) = new_Cancelable (tokens w)
        in Inr (c, w\<lparr>sock := this\<lparr>write_cancelable := c, writing := True,
                                     state := Closing\<rparr>,
                     tokens := ts,
                     pending := pending w @ [Some (Queued (CloseWriteLambda handler c error))],
                     trace := tr @ [post]\<rparr>))"

definition CloseWriteLambda_call ::
  "handler \<Rightarrow> Cancelable \<Rightarrow> error_code \<Rightarrow> world \<Rightarrow> fault + world" where
  "CloseWriteLambda_call handler cancelable error w =
     (if canceled (tokens w) cancelable then Inr w
      else
        let this = (sock w)\<lparr>writing := False\<rparr>;
            this = (if read_closed this then this\<lparr>state := Closed\<rparr> else this)
        in Inr (w\<lparr>sock := this, trace := trace w @ [handler_call handler None error]\<rparr>))"

subsection \<open>The queries\<close>

text \<open>
  The macros \<^verbatim>\<open>NE_DATA_FLOW_CAN_CHECK_CLOSE_STATE\<close> and \<^verbatim>\<open>NE_DATA_FLOW_CAN_CHECK_DATA_STATE\<close>
  are defined in a header that is not part of the sources; each query takes the
  predicate on states that its macro computes as its first argument.
\<close>

definition IsReadClosed :: "(State \<Rightarrow> bool) \<Rightarrow> TcpSocket \<Rightarrow> fault + bool" where
  "IsReadClosed CAN_CHECK_CLOSE_STATE this =
     (if \<not> CAN_CHECK_CLOSE_STATE (state this) then Inl AssertionFailed
      else Inr (read_closed this))"

definition IsWriteClosed :: "(State \<Rightarrow> bool) \<Rightarrow> TcpSocket \<Rightarrow> fault + bool" where
  "IsWriteClosed CAN_CHECK_CLOSE_STATE this =
     (if \<not> CAN_CHECK_CLOSE_STATE (state this) then Inl AssertionFailed
      else Inr (write_closed this))"

definition IsWriteClosing :: "(State \<Rightarrow> bool) \<Rightarrow> TcpSocket \<Rightarrow> fault + bool" where
  "IsWriteClosing CAN_CHECK_CLOSE_STATE this =
     (if \<not> CAN_CHECK_CLOSE_STATE (state this) then Inl AssertionFailed
      else Inr (write_closed this \<and> writing this))"

definition IsReading :: "(State \<Rightarrow> bool) \<Rightarrow> TcpSocket \<Rightarrow> fault + bool" where
  "IsReading CAN_CHECK_DATA_STATE this =
     (if \<not> CAN_CHECK_DATA_STATE (state this) then Inl AssertionFailed
      else Inr (reading this))"

definition IsWriting :: "(State \<Rightarrow> bool) \<Rightarrow> TcpSocket \<Rightarrow> fault + bool" where
  "IsWriting CAN_CHECK_DATA_STATE this =
     (if \<not> CAN_CHECK_DATA_STATE (state this) then Inl AssertionFailed
      else Inr (writing this \<and> \<not> write_closed this))"

subsection \<open>Open, Continue, ReportError\<close>

definition Open :: "handler \<Rightarrow> world \<Rightarrow> fault + Cancelable \<times> world" where
  "Open handler w =
     (let this = sock w in
      if state this \<noteq> Closed then Inl AssertionFailed
      else
        let (c, ts) = new_Cancelable (tokens w)
        in Inr (c, w\<lparr>sock := this\<lparr>report_cancelable := c, state := Establishing\<rparr>,
                     tokens := ts,
                     pending := pending w @ [Some (Queued (OpenLambda handler c))],
                     trace := trace w @ [post]\<rparr>))"

definition OpenLambda_call :: "handler \<Rightarrow> Cancelable \<Rightarrow> world \<Rightarrow> fault + world" where
  "OpenLambda_call handler cancelable w =
     (if canceled (tokens w) cancelable then Inr w
      else Inr (w\<lparr>trace := trace w @ [handler_call handler None NoError]\<rparr>))"

definition Continue :: "handler \<Rightarrow> world \<Rightarrow> fault + Cancelable \<times> world" where
  "Continue handler w =
     (let this = sock w in
      if state this \<noteq> Establishing then Inl AssertionFailed
      else
        let (c, ts) = new_Cancelable (tokens w)
        in Inr (c, w\<lparr>sock := this\<lparr>report_cancelable := c\<rparr>,
                     tokens := ts,
                     pending := pending w @ [Some (Queued (ContinueLambda handler c))],
                     trace := trace w @ [post]\<rparr>))"

definition ContinueLambda_call :: "handler \<Rightarrow> Cancelable \<Rightarrow> world \<Rightarrow> fault + world" where
  "ContinueLambda_call handler cancelable w =
     (if canceled (tokens w) cancelable then Inr w
      else Inr (w\<lparr>sock := (sock w)\<lparr>state := Established\<rparr>,
                  trace := trace w @ [handler_call handler None NoError]\<rparr>))"

definition ReportError :: "error_code \<Rightarrow> handler \<Rightarrow> world \<Rightarrow> fault + Cancelable \<times> world" where
  "ReportError ec handler w =
     (let this = sock w in
      if state this = Closed then Inl AssertionFailed
      else
        let ts = Cancel (read_cancelable this) (tokens w);
            ts = Cancel (write_cancelable this) ts;
            ts = Cancel (connect_cancelable this) ts;
            ts = Cancel (report_cancelable this) ts;
            this = this\<lparr>reading := False, writing := False,
                        read_closed := True, write_closed := True\<rparr>;
            (c, ts) = new_Cancelable ts
        in Inr (c, w\<lparr>sock := this\<lparr>report_cancelable := c\<rparr>,
                     tokens := ts,
                     pending := pending w @ [Some (Queued (ReportErrorLambda handler c))],
                     trace := trace w @ [post]\<rparr>))"

definition ReportErrorLambda_call :: "handler \<Rightarrow> Cancelable \<Rightarrow> world \<Rightarrow> fault + world" where
  "ReportErrorLambda_call handler cancelable w =
     (if canceled (tokens w) cancelable then Inr w
      else Inr (w\<lparr>trace := trace w @ [handler_call handler None NoError]\<rparr>))"

subsection \<open>Connect\<close>

text \<open>
  Modelled from the spec: \<^verbatim>\<open>TcpConnector::Connect\<close> (nekit/transport/tcp_connector.h and
  its implementation are not part of the sources). The connector takes a callback,
  returns a token of its own, and later yields a connected primitive or an error code to
  the callback; it follows the token convention, so it does not call the callback once
  its token is canceled. The first component is the token, the last the continuation the
  connector holds.
\<close>

definition TcpConnector_Connect ::
  "closure \<Rightarrow> token_store \<Rightarrow> Cancelable \<times> token_store \<times> pending_op" where
  "TcpConnector_Connect callback ts =
     (let (c, ts) = new_Cancelable ts in (c, ts, Connecting c callback))"

text \<open>
  The lambda captures \<^verbatim>\<open>cancelable{connect_cancelable_}\<close> before the member is assigned
  the token the connector returns, so it holds the member's previous value.
\<close>

definition Connect :: "handler \<Rightarrow> world \<Rightarrow> fault + Cancelable \<times> world" where
  "Connect handler w =
     (let this = sock w in
      if state this \<noteq> Closed then Inl AssertionFailed
      else
        let this = this\<lparr>connect_to := current_endpoint (session this)\<rparr> in
        case connect_to this of
          None \<Rightarrow> Inl AssertionFailed
        | Some target \<Rightarrow>
            let this = this\<lparr>connector := Some target\<rparr>;
                this = this\<lparr>state := Establishing\<rparr>;
                (c, ts, p) = TcpConnector_Connect
                               (ConnectLambda handler (connect_cancelable this)) (tokens w)
            in Inr (c, w\<lparr>sock := this\<lparr>connect_cancelable := c\<rparr>,
                         tokens := ts,
                         pending := pending w @ [Some p],
                         trace := trace w @ [connector_Connect target]\<rparr>))"

definition ConnectLambda_call ::
  "handler \<Rightarrow> Cancelable \<Rightarrow> raw_socket \<Rightarrow> error_code \<Rightarrow> world \<Rightarrow> fault + world" where
  "ConnectLambda_call handler cancelable s ec w =
     (if canceled (tokens w) cancelable then Inr w
      else if is_error ec then
        Inr (w\<lparr>sock := (sock w)\<lparr>state := Closed\<rparr>,
               trace := trace w @ [handler_call handler None ec]\<rparr>)
      else
        Inr (w\<lparr>sock := (sock w)\<lparr>state := Established, socket := s\<rparr>,
               trace := trace w @ [handler_call handler None ec]\<rparr>))"

subsection \<open>Running continuations\<close>

text \<open>
  Calling a closure with the arguments of its kind; a closure is never called with the
  arguments of another kind.
\<close>

fun invoke :: "closure \<Rightarrow> result \<Rightarrow> world \<Rightarrow> fault + world" where
  "invoke (ReadLambda buffer buffer_wrapper handler cancelable) (io_result ec n) w =
     ReadLambda_call buffer buffer_wrapper handler cancelable ec n w"
| "invoke (WriteLambda buffer handler cancelable) (io_result ec n) w =
     WriteLambda_call buffer handler cancelable ec n w"
| "invoke (CloseWriteLambda handler cancelable error) posted w =
     CloseWriteLambda_call handler cancelable error w"
| "invoke (OpenLambda handler cancelable) posted w = OpenLambda_call handler cancelable w"
| "invoke (ContinueLambda handler cancelable) posted w =
     ContinueLambda_call handler cancelable w"
| "invoke (ReportErrorLambda handler cancelable) posted w =
     ReportErrorLambda_call handler cancelable w"
| "invoke (ConnectLambda handler cancelable) (connect_result s ec) w =
     ConnectLambda_call handler cancelable s ec w"
| "invoke _ _ w = Inl NotPending"

text \<open>
  The event loop, the socket primitive or the connector finishes the pending operation
  number \<open>i\<close>: its continuation leaves the list and runs, once. The connector checks its
  own token first.
\<close>

definition complete :: "nat \<Rightarrow> result \<Rightarrow> world \<Rightarrow> fault + world" where
  "complete i r w =
     (if length (pending w) \<le> i then Inl NotPending
      else case pending w ! i of
        None \<Rightarrow> Inl NotPending
      | Some p \<Rightarrow>
          let w = w\<lparr>pending := (pending w)[i := None]\<rparr> in
          (case p of
             Queued c \<Rightarrow> invoke c r w
           | Connecting t c \<Rightarrow> if canceled (tokens w) t then Inr w else invoke c r w))"

text \<open>
  The seven operations that return a token, with their arguments (\<open>op_CloseWrite\<close> also
  with the outcome of the shutdown, \<open>op_Read\<close> also with the order in which its call
  evaluates its arguments), and the kind of result the continuation of each is called
  with.
\<close>

datatype operation =
    op_Open handler
  | op_Connect handler
  | op_Continue handler
  | op_Read argument_order Buffer handler
  | op_Write Buffer handler
  | op_CloseWrite boost_error_code handler
  | op_ReportError error_code handler

fun perform :: "operation \<Rightarrow> world \<Rightarrow> fault + Cancelable \<times> world" where
  "perform (op_Open h) w = Open h w"
| "perform (op_Connect h) w = Connect h w"
| "perform (op_Continue h) w = Continue h w"
| "perform (op_Read arg_order b h) w = Read arg_order b h w"
| "perform (op_Write b h) w = Write b h w"
| "perform (op_CloseWrite ec h) w = CloseWrite ec h w"
| "perform (op_ReportError ec h) w = ReportError ec h w"

fun expects :: "operation \<Rightarrow> result \<Rightarrow> bool" where
  "expects (op_Read arg_order b h) (io_result ec n) = True"
| "expects (op_Write b h) (io_result ec n) = True"
| "expects (op_Connect h) (connect_result s ec) = True"
| "expects (op_Open h) posted = True"
| "expects (op_Continue h) posted = True"
| "expects (op_CloseWrite ec h) posted = True"
| "expects (op_ReportError ec h) posted = True"
| "expects _ _ = False"

text \<open>
  What can happen to a socket: its owner calls an operation, a holder of a token cancels
  it, or a pending operation completes.
\<close>

datatype action =
    call operation
  | cancel Cancelable
  | completion nat result

fun step :: "action \<Rightarrow> world \<Rightarrow> fault + world" where
  "step (call p) w = (case perform p w of Inl f \<Rightarrow> Inl f | Inr (c, w') \<Rightarrow> Inr w')"
| "step (cancel c) w = Inr (w\<lparr>tokens := Cancel c (tokens w)\<rparr>)"
| "step (completion i r) w = complete i r w"

fun run :: "action list \<Rightarrow> world \<Rightarrow> fault + world" where
  "run [] w = Inr w"
| "run (a # as) w = (case step a w of Inl f \<Rightarrow> Inl f | Inr w' \<Rightarrow> run as w')"

subsection \<open>Construction\<close>

text \<open>
  Modelled from the spec: the default member initialisers of \<^verbatim>\<open>TcpSocket\<close>
  (nekit/transport/tcp_socket.h is not part of the sources). A new socket is in state
  \<open>Closed\<close> with no direction closed and nothing in flight, and each of its four tokens
  is a live token of its own. The two constructors of the source fill in the rest:
  both make the two span lists empty; the second takes the target from the session.
\<close>

definition TcpSocket_of_socket :: "raw_socket \<Rightarrow> Session \<Rightarrow> world" where
  "TcpSocket_of_socket s ses =
     \<lparr>sock = \<lparr>socket = s, session = ses, connect_to = None, connector = None,
              write_buffer = Some [], read_buffer = Some [],
              read_cancelable = 0, write_cancelable = 1, report_cancelable = 2,
              connect_cancelable = 3,
              state = Closed, read_closed = False, write_closed = False,
              reading = False, writing = False\<rparr>,
      tokens = \<lparr>allocated = 4, flag = (\<lambda>c. False)\<rparr>, pending = [], trace = []\<rparr>"

definition TcpSocket_of_session :: "Session \<Rightarrow> world" where
  "TcpSocket_of_session ses =
     \<lparr>sock = \<lparr>socket = 0, session = ses, connect_to = current_endpoint ses,
              connector = None,
              write_buffer = Some [], read_buffer = Some [],
              read_cancelable = 0, write_cancelable = 1, report_cancelable = 2,
              connect_cancelable = 3,
              state = Closed, read_closed = False, write_closed = False,
              reading = False, writing = False\<rparr>,
      tokens = \<lparr>allocated = 4, flag = (\<lambda>c. False)\<rparr>, pending = [], trace = []\<rparr>"

subsection \<open>Vocabulary for the properties\<close>

text \<open>
  The token that decides whether a pending operation may still call back, and the
  results a pending operation can be completed with.
\<close>

fun guard :: "pending_op \<Rightarrow> Cancelable" where
  "guard (Queued (ReadLambda b bw h c)) = c"
| "guard (Queued (WriteLambda b h c)) = c"
| "guard (Queued (CloseWriteLambda h c e)) = c"
| "guard (Queued (OpenLambda h c)) = c"
| "guard (Queued (ContinueLambda h c)) = c"
| "guard (Queued (ReportErrorLambda h c)) = c"
| "guard (Queued (ConnectLambda h c)) = c"
| "guard (Connecting t cl) = t"

fun awaits :: "pending_op \<Rightarrow> result \<Rightarrow> bool" where
  "awaits (Queued (ReadLambda b bw h c)) (io_result ec n) = True"
| "awaits (Queued (WriteLambda b h c)) (io_result ec n) = True"
| "awaits (Queued (CloseWriteLambda h c e)) posted = True"
| "awaits (Queued (OpenLambda h c)) posted = True"
| "awaits (Queued (ContinueLambda h c)) posted = True"
| "awaits (Queued (ReportErrorLambda h c)) posted = True"
| "awaits (Queued (ConnectLambda h c)) (connect_result s ec) = True"
| "awaits (Connecting t (ConnectLambda h c)) (connect_result s ec) = True"
| "awaits _ _ = False"

text \<open>The conditions that the translator maps, in the order of the source.\<close>

definition mapped_conditions :: "boost_error_code list" where
  "mapped_conditions =
     [boost_error_code system_category operation_aborted,
      boost_error_code system_category connection_aborted,
      boost_error_code system_category connection_reset,
      boost_error_code system_category host_unreachable,
      boost_error_code system_category network_down,
      boost_error_code system_category network_reset,
      boost_error_code system_category network_unreachable,
      boost_error_code system_category timed_out,
      boost_error_code misc_category eof]"

definition eof_condition :: boost_error_code where
  "eof_condition = boost_error_code misc_category eof"

text \<open>
  A socket made from a connected primitive, the calls that establish it (\<open>Open\<close>, its
  continuation, \<open>Continue\<close>, its continuation), and three ways to look at the end of a
  run: the world it ends in (the first world if the run stops at a fault), whether it
  ends in a given state, and the two span lists it ends with.
\<close>

definition fresh :: world where
  "fresh = TcpSocket_of_socket 7 \<lparr>current_endpoint = Some 9\<rparr>"

definition handshake :: "action list" where
  "handshake =
     [call (op_Open 1), completion 0 posted, call (op_Continue 2), completion 1 posted]"

definition after :: "action list \<Rightarrow> world \<Rightarrow> world" where
  "after as w = (case run as w of Inl f \<Rightarrow> w | Inr w' \<Rightarrow> w')"

definition ends_in :: "State \<Rightarrow> action list \<Rightarrow> world \<Rightarrow> bool" where
  "ends_in st as w = (case run as w of Inl f \<Rightarrow> False | Inr w' \<Rightarrow> state (sock w') = st)"

definition scratch_after ::
  "action list \<Rightarrow> world \<Rightarrow> (span list option \<times> span list option) option" where
  "scratch_after as w =
     (case run as w of
        Inl f \<Rightarrow> None
      | Inr w' \<Rightarrow> Some (read_buffer (sock w'), write_buffer (sock w')))"

subsection \<open>What holds of every socket the operations can produce\<close>

text \<open>
  The pending operations of the write direction (\<open>Write\<close> and \<open>CloseWrite\<close>) and of the
  read direction, the continuations that are still waiting, and the well-formedness of a
  world: the four tokens of the socket have been allocated; the waiting continuations
  have allocated, pairwise different guards; the connector holds connect lambdas and
  nothing else does; and a waiting continuation of a direction whose guard is live is
  guarded by the current token of that direction, whose busy flag is set. A world is
  reachable when a run of calls, cancelations and completions leads to it from a newly
  constructed socket.
\<close>

fun writes :: "pending_op \<Rightarrow> bool" where
  "writes (Queued (WriteLambda b h c)) = True"
| "writes (Queued (CloseWriteLambda h c e)) = True"
| "writes _ = False"

fun reads :: "pending_op \<Rightarrow> bool" where
  "reads (Queued (ReadLambda b bw h c)) = True"
| "reads _ = False"

fun somes :: "'a option list \<Rightarrow> 'a list" where
  "somes [] = []"
| "somes (None # xs) = somes xs"
| "somes (Some x # xs) = x # somes xs"

definition waiting :: "world \<Rightarrow> pending_op list" where
  "waiting w = somes (pending w)"

definition members_allocated :: "world \<Rightarrow> bool" where
  "members_allocated w =
     (read_cancelable (sock w) < allocated (tokens w)
      \<and> write_cancelable (sock w) < allocated (tokens w)
      \<and> report_cancelable (sock w) < allocated (tokens w)
      \<and> connect_cancelable (sock w) < allocated (tokens w))"

fun held_by_connector :: "pending_op \<Rightarrow> bool" where
  "held_by_connector (Connecting t (ConnectLambda h c)) = True"
| "held_by_connector (Connecting t cl) = False"
| "held_by_connector (Queued (ConnectLambda h c)) = False"
| "held_by_connector (Queued cl) = True"

definition direction_ok :: "world \<Rightarrow> pending_op \<Rightarrow> bool" where
  "direction_ok w q =
     ((writes q \<and> \<not> canceled (tokens w) (guard q) \<longrightarrow>
         guard q = write_cancelable (sock w) \<and> writing (sock w))
      \<and> (reads q \<and> \<not> canceled (tokens w) (guard q) \<longrightarrow>
         guard q = read_cancelable (sock w) \<and> reading (sock w)))"

definition armed_ok :: "world \<Rightarrow> pending_op \<Rightarrow> bool" where
  "armed_ok w q =
     (guard q < allocated (tokens w) \<and> held_by_connector q \<and> direction_ok w q)"

definition wf :: "world \<Rightarrow> bool" where
  "wf w = (members_allocated w \<and> distinct (map guard (waiting w))
           \<and> (\<forall>q \<in> set (waiting w). armed_ok w q))"

definition reachable :: "world \<Rightarrow> bool" where
  "reachable w =
     (\<exists>as s ses. run as (TcpSocket_of_socket s ses) = Inr w
               \<or> run as (TcpSocket_of_session ses) = Inr w)"

text \<open>
  Concrete inputs: a read into a buffer of two chunks (100 bytes), a write of one chunk
  (10 bytes), two outcomes of a transfer, the established socket, the established socket
  with that read and that write in flight, and a socket made from a session only.
\<close>

definition a_read :: operation where
  "a_read = op_Read sequence_first (Buffer [(0, 60), (100, 40)]) 3"

definition a_write :: operation where
  "a_write = op_Write (Buffer [(200, 10)]) 4"

definition success :: boost_error_code where
  "success = boost_error_code system_category 0"

definition reset_condition :: boost_error_code where
  "reset_condition = boost_error_code system_category connection_reset"

definition established :: world where
  "established = after handshake fresh"

definition in_flight :: world where
  "in_flight = after (handshake @ [call a_read, call a_write]) fresh"

definition unconnected :: world where
  "unconnected = TcpSocket_of_session \<lparr>current_endpoint = Some 9\<rparr>"

section \<open>Properties\<close>

subsection \<open>Auxiliary facts\<close>

lemmas basic_errors_defs =
  operation_aborted_def connection_aborted_def connection_reset_def host_unreachable_def
  network_down_def network_reset_def network_unreachable_def timed_out_def
  not_connected_def eof_def

lemmas op_defs =
  Read_def Write_def CloseWrite_def Open_def Continue_def ReportError_def
  Connect_def TcpConnector_Connect_def new_Cancelable_def

lemmas lambda_defs =
  ReadLambda_call_def WriteLambda_call_def CloseWriteLambda_call_def
  OpenLambda_call_def ContinueLambda_call_def ReportErrorLambda_call_def
  ConnectLambda_call_def

lemmas eval_defs =
  fresh_def handshake_def after_def TcpSocket_of_socket_def TcpSocket_of_session_def
  op_defs lambda_defs complete_def Let_def canceled_def Cancel_def

lemmas input_defs =
  a_read_def a_write_def success_def reset_condition_def established_def in_flight_def
  unconnected_def Buffer_size_def WalkInternalChunk_def failed_def

lemma eof_condition_simps:
  "failed eof_condition" "ConvertBoostError this eof_condition = EndOfFile"
  by (simp_all add: eof_condition_def failed_def ConvertBoostError_def eof_def)

lemma complete_Queued:
  "i < length (pending w) \<Longrightarrow> pending w ! i = Some (Queued c) \<Longrightarrow>
   complete i r w = invoke c r (w\<lparr>pending := (pending w)[i := None]\<rparr>)"
  by (simp add: complete_def)

lemma run_append:
  "run (as @ bs) w = (case run as w of Inl f \<Rightarrow> Inl f | Inr v \<Rightarrow> run bs v)"
  by (induction as arbitrary: w) (auto split: sum.splits)

lemma sum_shrink_from:
  "n \<le> sum_list (map snd cs) \<Longrightarrow>
   sum_list (map snd (shrink_from n cs)) = sum_list (map snd cs) - n"
  by (induction n cs rule: shrink_from.induct) auto

lemma ShrinkBack_size:
  "n \<le> Buffer_size b \<Longrightarrow>
   \<exists>b'. ShrinkBack n b = Some b' \<and> Buffer_size b' = Buffer_size b - n"
  using sum_shrink_from[of n "rev (chunks b)"]
  by (simp add: ShrinkBack_def Buffer_size_def rev_map[symmetric])

lemma all_none: "i < length xs \<Longrightarrow> set xs \<subseteq> {None} \<Longrightarrow> xs ! i = None"
  using nth_mem by fastforce

text \<open>
  The order in which \<open>Read\<close> evaluates the arguments of its request decides what the
  request receives and nothing else: the socket, the tokens and the continuation are the
  same in both orders.
\<close>

lemma Read_either_order:
  assumes "Read sequence_first buffer handler w = Inr (c, w1)"
  shows "\<exists>w2. Read lambda_first buffer handler w = Inr (c, w2)
           \<and> sock w2 = sock w1 \<and> tokens w2 = tokens w1 \<and> pending w2 = pending w1
           \<and> trace w1 = trace w @ [async_read_some (Some (WalkInternalChunk buffer))]
           \<and> trace w2 = trace w @ [async_read_some None]"
  using assms
  by (simp add: Read_def new_Cancelable_def Let_def split: if_splits option.splits) auto

subsection \<open>Every operation queues one continuation under the token it returns\<close>

lemma perform_pending:
  assumes "perform p w = Inr (c, w1)"
  shows "\<exists>q. pending w1 = pending w @ [Some q] \<and> guard q = c
             \<and> (\<forall>r. expects p r \<longrightarrow> awaits q r) \<and> c < allocated (tokens w1)"
proof (cases p)
  case (op_Read arg_order b h)
  with assms show ?thesis
    apply (auto simp add: op_defs Let_def split: if_splits option.splits)
    subgoal for r by (cases r) auto
    done
next
  case (op_Write b h)
  with assms show ?thesis
    apply (auto simp add: op_defs Let_def split: if_splits option.splits)
    subgoal for r by (cases r) auto
    done
next
  case (op_Open h)
  with assms show ?thesis
    apply (auto simp add: op_defs Let_def split: if_splits option.splits)
    subgoal for r by (cases r) auto
    done
next
  case (op_Connect h)
  with assms show ?thesis
    apply (auto simp add: op_defs Let_def split: if_splits option.splits)
    subgoal for t r by (cases r) auto
    done
next
  case (op_Continue h)
  with assms show ?thesis
    apply (auto simp add: op_defs Let_def split: if_splits option.splits)
    subgoal for r by (cases r) auto
    done
next
  case (op_CloseWrite ec h)
  with assms show ?thesis
    apply (auto simp add: op_defs Let_def split: if_splits option.splits)
    subgoal for r by (cases r) auto
    subgoal for r by (cases r) auto
    done
next
  case (op_ReportError ec h)
  with assms show ?thesis
    apply (auto simp add: op_defs Cancel_def Let_def split: if_splits option.splits)
    subgoal for r by (cases r) auto
    done
qed

subsection \<open>A continuation whose token is canceled does nothing\<close>

lemma invoke_canceled:
  "canceled (tokens w) (guard (Queued cl)) \<Longrightarrow> awaits (Queued cl) r \<Longrightarrow>
   invoke cl r w = Inr w"
  by (cases cl; cases r) (simp_all add: lambda_defs)

lemma complete_canceled:
  assumes "i < length (pending w)" and "pending w ! i = Some q"
      and "canceled (tokens w) (guard q)" and "awaits q r"
  shows "complete i r w = Inr (w\<lparr>pending := (pending w)[i := None]\<rparr>)"
proof (cases q)
  case (Queued cl)
  with assms show ?thesis by (simp add: complete_def invoke_canceled)
next
  case (Connecting t cl)
  with assms show ?thesis by (simp add: complete_def)
qed

subsection \<open>Cancelation is for good, and a continuation waits until it is completed\<close>

lemma invoke_frame:
  assumes "invoke cl r w = Inr w'"
  shows "allocated (tokens w') = allocated (tokens w) \<and> pending w' = pending w
       \<and> (canceled (tokens w) c \<longrightarrow> canceled (tokens w') c)"
  using assms
  by (cases cl; cases r)
     (auto simp add: lambda_defs Let_def canceled_def Cancel_def
           split: if_splits option.splits)

lemma complete_frame:
  assumes "complete i r w = Inr w'"
  shows "allocated (tokens w') = allocated (tokens w) \<and> pending w' = (pending w)[i := None]
       \<and> (canceled (tokens w) c \<longrightarrow> canceled (tokens w') c)"
proof -
  from assms obtain q where q: "i < length (pending w)" "pending w ! i = Some q"
    by (auto simp add: complete_def split: if_splits option.splits)
  let ?v = "w\<lparr>pending := (pending w)[i := None]\<rparr>"
  show ?thesis
  proof (cases q)
    case (Queued cl)
    with assms q have "invoke cl r ?v = Inr w'" by (simp add: complete_def)
    from invoke_frame[OF this, of c] show ?thesis by simp
  next
    case (Connecting t cl)
    show ?thesis
    proof (cases "canceled (tokens w) t")
      case True
      with assms q Connecting have "w' = ?v" by (simp add: complete_def)
      then show ?thesis by simp
    next
      case False
      with assms q Connecting have "invoke cl r ?v = Inr w'" by (simp add: complete_def)
      from invoke_frame[OF this, of c] show ?thesis by simp
    qed
  qed
qed

lemma perform_frame:
  assumes "perform p w = Inr (t, w')"
  shows "allocated (tokens w') = Suc (allocated (tokens w))
       \<and> (c < allocated (tokens w) \<longrightarrow> canceled (tokens w) c \<longrightarrow> canceled (tokens w') c)"
  using assms
  by (cases p)
     (auto simp add: op_defs Let_def canceled_def Cancel_def split: if_splits option.splits)

lemma step_frame:
  assumes "step a w = Inr w'"
  shows "allocated (tokens w) \<le> allocated (tokens w')
       \<and> length (pending w) \<le> length (pending w')
       \<and> (c < allocated (tokens w) \<longrightarrow> canceled (tokens w) c \<longrightarrow> canceled (tokens w') c)
       \<and> (i < length (pending w) \<longrightarrow> (\<forall>r. a \<noteq> completion i r) \<longrightarrow>
            pending w' ! i = pending w ! i)"
proof (cases a)
  case (call p)
  with assms obtain t where p: "perform p w = Inr (t, w')"
    by (auto split: sum.splits)
  from perform_frame[OF p, of c] perform_pending[OF p] show ?thesis
    by (auto simp add: nth_append)
next
  case (cancel t)
  with assms show ?thesis by (auto simp add: canceled_def Cancel_def)
next
  case (completion j r)
  with assms have "complete j r w = Inr w'" by simp
  from complete_frame[OF this, of c] completion show ?thesis by auto
qed

lemma run_frame:
  assumes "run as w = Inr w'"
      and "c < allocated (tokens w)" and "i < length (pending w)"
  shows "c < allocated (tokens w') \<and> i < length (pending w')
       \<and> (canceled (tokens w) c \<longrightarrow> canceled (tokens w') c)
       \<and> ((\<forall>r. completion i r \<notin> set as) \<longrightarrow> pending w' ! i = pending w ! i)"
  using assms
proof (induction as arbitrary: w)
  case Nil
  then show ?case by simp
next
  case (Cons a as)
  from Cons.prems(1) obtain v where v: "step a w = Inr v" and rest: "run as v = Inr w'"
    by (auto split: sum.splits)
  from step_frame[OF v, of c i] Cons.prems
  have 1: "c < allocated (tokens v)" "i < length (pending v)"
    "canceled (tokens w) c \<longrightarrow> canceled (tokens v) c"
    "(\<forall>r. a \<noteq> completion i r) \<longrightarrow> pending v ! i = pending w ! i"
    by auto
  from Cons.IH[OF rest 1(1) 1(2)] 1 show ?case by auto
qed

subsection \<open>Well-formedness is invariant\<close>

lemma somes_append: "somes (xs @ ys) = somes xs @ somes ys"
  by (induction xs rule: somes.induct) auto

lemma somes_split:
  assumes "i < length xs" and "xs ! i = Some q"
  shows "somes xs = somes (take i xs) @ q # somes (drop (Suc i) xs)"
    and "somes (xs[i := None]) = somes (take i xs) @ somes (drop (Suc i) xs)"
proof -
  from id_take_nth_drop[OF assms(1)] assms(2)
  have "xs = take i xs @ Some q # drop (Suc i) xs" by simp
  then have "somes xs = somes (take i xs @ Some q # drop (Suc i) xs)" by simp
  then show "somes xs = somes (take i xs) @ q # somes (drop (Suc i) xs)"
    by (simp add: somes_append)
  from assms have "xs[i := None] = take i xs @ None # drop (Suc i) xs"
    by (simp add: upd_conv_take_nth_drop)
  then show "somes (xs[i := None]) = somes (take i xs) @ somes (drop (Suc i) xs)"
    by (simp add: somes_append)
qed

lemma somes_removed:
  assumes "i < length xs" and "xs ! i = Some q" and "distinct (map f (somes xs))"
  shows "set (somes (xs[i := None])) \<subseteq> set (somes xs)"
    and "distinct (map f (somes (xs[i := None])))"
    and "\<forall>q' \<in> set (somes (xs[i := None])). f q' \<noteq> f q"
    and "q \<in> set (somes xs)"
  using assms(3) unfolding somes_split[OF assms(1,2)] by (auto simp add: image_iff)

lemmas wf_defs = members_allocated_def armed_ok_def direction_ok_def canceled_def

lemma perform_members:
  assumes "perform p w = Inr (c, w')" and "members_allocated w"
  shows "members_allocated w'"
  using assms
  by (cases p)
     (auto simp add: members_allocated_def op_defs Cancel_def Let_def
           split: if_splits option.splits)

lemma perform_armed_old:
  assumes "perform p w = Inr (c, w')" and "members_allocated w" and "armed_ok w q"
  shows "armed_ok w' q"
  using assms
  by (cases p)
     (auto simp add: wf_defs op_defs Cancel_def Let_def split: if_splits option.splits)

lemma perform_armed_new:
  assumes "perform p w = Inr (c, w')"
  shows "\<exists>q. pending w' = pending w @ [Some q] \<and> guard q = allocated (tokens w)
             \<and> armed_ok w' q"
  using assms
  by (cases p)
     (auto simp add: wf_defs op_defs Cancel_def Let_def split: if_splits option.splits)

lemma perform_wf:
  assumes "perform p w = Inr (c, w')" and "wf w"
  shows "wf w'"
proof -
  from perform_armed_new[OF assms(1)] obtain q where
    q: "pending w' = pending w @ [Some q]" "guard q = allocated (tokens w)" "armed_ok w' q"
    by blast
  from assms(2) have m: "members_allocated w"
    and d: "distinct (map guard (waiting w))"
    and a: "\<And>q'. q' \<in> set (waiting w) \<Longrightarrow> armed_ok w q'"
    by (simp_all add: wf_def)
  have w': "waiting w' = waiting w @ [q]"
    by (simp add: waiting_def q(1) somes_append)
  have fresh: "guard q \<notin> guard ` set (waiting w)"
  proof
    assume "guard q \<in> guard ` set (waiting w)"
    then obtain q' where "q' \<in> set (waiting w)" "guard q' = guard q" by auto
    with a[of q'] q(2) show False by (simp add: armed_ok_def)
  qed
  have "armed_ok w' q'" if "q' \<in> set (waiting w')" for q'
    using that w' q(3) a perform_armed_old[OF assms(1) m] by auto
  with perform_members[OF assms(1) m] d fresh w' show ?thesis
    by (simp add: wf_def)
qed


lemma invoke_members:
  assumes "invoke cl r v = Inr w'" and "members_allocated v"
  shows "members_allocated w'"
  using assms
  by (cases cl; cases r)
     (auto simp add: members_allocated_def lambda_defs Cancel_def Let_def
           split: if_splits option.splits)

lemma invoke_armed:
  assumes "invoke cl r v = Inr w'" and "direction_ok v (Queued cl)"
      and "armed_ok v q"
      and "writes (Queued cl) \<or> reads (Queued cl) \<longrightarrow> guard q \<noteq> guard (Queued cl)"
  shows "armed_ok w' q"
  using assms
  by (cases cl; cases r)
     (auto simp add: wf_defs lambda_defs Cancel_def Let_def split: if_splits option.splits)

lemma pending_update_ok:
  "armed_ok (w\<lparr>pending := ps\<rparr>) q = armed_ok w q"
  "direction_ok (w\<lparr>pending := ps\<rparr>) q = direction_ok w q"
  "members_allocated (w\<lparr>pending := ps\<rparr>) = members_allocated w"
  by (simp_all add: wf_defs)

lemma invoke_pending:
  assumes "invoke cl r v = Inr w'"
  shows "pending w' = pending v"
  using invoke_frame[OF assms] by simp

lemma complete_wf:
  assumes "complete i r w = Inr w'" and "wf w"
  shows "wf w'"
proof -
  from assms(1) obtain q where i: "i < length (pending w)" and q: "pending w ! i = Some q"
    by (auto simp add: complete_def split: if_splits option.splits)
  let ?v = "w\<lparr>pending := (pending w)[i := None]\<rparr>"
  from assms(2) have m: "members_allocated w"
    and d: "distinct (map guard (somes (pending w)))"
    and a: "\<And>q'. q' \<in> set (somes (pending w)) \<Longrightarrow> armed_ok w q'"
    by (simp_all add: wf_def waiting_def)
  note rm = somes_removed[OF i q d]
  from rm(4) a have aq: "armed_ok w q" by blast
  have v: "wf ?v"
    using m rm(1,2) a by (auto simp add: wf_def waiting_def pending_update_ok)
  have "w' = ?v \<or> (\<exists>cl. invoke cl r ?v = Inr w' \<and> direction_ok ?v (Queued cl)
                        \<and> (writes (Queued cl) \<or> reads (Queued cl) \<longrightarrow>
                             guard (Queued cl) = guard q))"
  proof (cases q)
    case (Queued cl)
    with assms(1) i q aq show ?thesis
      by (auto simp add: complete_def armed_ok_def pending_update_ok)
  next
    case (Connecting t cl)
    with aq obtain h c where cl: "cl = ConnectLambda h c"
      by (cases cl) (auto simp add: armed_ok_def)
    have dir: "direction_ok ?v (Queued cl)"
      by (simp add: cl direction_ok_def)
    from assms(1) i q Connecting have "w' = ?v \<or> invoke cl r ?v = Inr w'"
      by (auto simp add: complete_def Let_def split: if_splits)
    with dir cl show ?thesis by auto
  qed
  then show ?thesis
  proof
    assume "w' = ?v"
    with v show ?thesis by simp
  next
    assume "\<exists>cl. invoke cl r ?v = Inr w' \<and> direction_ok ?v (Queued cl)
                  \<and> (writes (Queued cl) \<or> reads (Queued cl) \<longrightarrow> guard (Queued cl) = guard q)"
    then obtain cl where inv: "invoke cl r ?v = Inr w'"
      and dir: "direction_ok ?v (Queued cl)"
      and g: "writes (Queued cl) \<or> reads (Queued cl) \<longrightarrow> guard (Queued cl) = guard q"
      by blast
    have p': "pending w' = (pending w)[i := None]"
      using invoke_pending[OF inv] by simp
    have "armed_ok w' q'" if "q' \<in> set (somes ((pending w)[i := None]))" for q'
    proof -
      from that rm(1) a have 1: "armed_ok ?v q'"
        by (auto simp add: pending_update_ok)
      from that rm(3) g
      have 2: "writes (Queued cl) \<or> reads (Queued cl) \<longrightarrow> guard q' \<noteq> guard (Queued cl)"
        by auto
      from invoke_armed[OF inv dir 1 2] show ?thesis .
    qed
    moreover from m have "members_allocated w'"
      using invoke_members[OF inv] by (simp add: pending_update_ok)
    ultimately show ?thesis
      using rm(2) by (simp add: wf_def waiting_def p')
  qed
qed

lemma step_wf:
  assumes "step a w = Inr w'" and "wf w"
  shows "wf w'"
proof (cases a)
  case (call p)
  with assms(1) obtain c where "perform p w = Inr (c, w')"
    by (auto split: sum.splits)
  from perform_wf[OF this assms(2)] show ?thesis .
next
  case (cancel t)
  with assms have "w' = w\<lparr>tokens := Cancel t (tokens w)\<rparr>" by simp
  with assms(2) show ?thesis
    by (auto simp add: wf_def waiting_def wf_defs Cancel_def)
next
  case (completion i r)
  with assms(1) have "complete i r w = Inr w'" by simp
  from complete_wf[OF this assms(2)] show ?thesis .
qed

lemma run_wf:
  assumes "run as w = Inr w'" and "wf w"
  shows "wf w'"
  using assms
proof (induction as arbitrary: w)
  case Nil
  then show ?case by simp
next
  case (Cons a as)
  from Cons.prems(1) obtain v where v: "step a w = Inr v" and rest: "run as v = Inr w'"
    by (auto split: sum.splits)
  from Cons.IH[OF rest step_wf[OF v Cons.prems(2)]] show ?case .
qed

lemma constructed_wf:
  "wf (TcpSocket_of_socket s ses)" "wf (TcpSocket_of_session ses)"
  by (simp_all add: wf_def waiting_def members_allocated_def TcpSocket_of_socket_def
        TcpSocket_of_session_def)

lemma reachable_wf: "reachable w \<Longrightarrow> wf w"
  unfolding reachable_def using run_wf constructed_wf by blast

subsection \<open>A closed direction stays closed\<close>

lemma nth_somes: "i < length xs \<Longrightarrow> xs ! i = Some q \<Longrightarrow> q \<in> set (somes xs)"
  using somes_split(1)[of i xs q] by simp

lemma somes_update_subset: "set (somes (xs[i := None])) \<subseteq> set (somes xs)"
proof (cases "i < length xs")
  case True
  show ?thesis
  proof (cases "xs ! i")
    case None
    with True have "xs[i := None] = xs" by (simp add: list_update_same_conv)
    then show ?thesis by simp
  next
    case (Some q)
    from somes_split[OF True Some] show ?thesis by auto
  qed
next
  case False
  then have "length xs \<le> i" by simp
  then have "xs[i := None] = xs" by (rule list_update_beyond)
  then show ?thesis by simp
qed

lemma invoke_closed:
  assumes "invoke cl r w = Inr w'"
  shows "(write_closed (sock w) \<longrightarrow> write_closed (sock w'))
       \<and> (read_closed (sock w) \<longrightarrow> read_closed (sock w'))"
  using assms
  by (cases cl; cases r)
     (auto simp add: lambda_defs Let_def split: if_splits option.splits)

lemma step_closed:
  assumes "step a w = Inr w'"
  shows "(write_closed (sock w) \<longrightarrow> write_closed (sock w'))
       \<and> (read_closed (sock w) \<longrightarrow> read_closed (sock w'))"
proof (cases a)
  case (call p)
  with assms show ?thesis
    by (cases p)
       (auto simp add: op_defs Let_def split: if_splits option.splits sum.splits)
next
  case (cancel t)
  with assms show ?thesis by auto
next
  case (completion i r)
  with assms have c: "complete i r w = Inr w'" by simp
  then obtain q where "i < length (pending w)" "pending w ! i = Some q"
    by (auto simp add: complete_def split: if_splits option.splits)
  with c have "w' = w\<lparr>pending := (pending w)[i := None]\<rparr>
      \<or> (\<exists>cl. invoke cl r (w\<lparr>pending := (pending w)[i := None]\<rparr>) = Inr w')"
    by (cases q) (auto simp add: complete_def Let_def split: if_splits)
  then show ?thesis using invoke_closed by fastforce
qed

lemma run_closed:
  assumes "run as w = Inr w'"
  shows "(write_closed (sock w) \<longrightarrow> write_closed (sock w'))
       \<and> (read_closed (sock w) \<longrightarrow> read_closed (sock w'))"
  using assms
proof (induction as arbitrary: w)
  case Nil
  then show ?case by simp
next
  case (Cons a as)
  from Cons.prems obtain v where v: "step a w = Inr v" and rest: "run as v = Inr w'"
    by (auto split: sum.splits)
  from step_closed[OF v] Cons.IH[OF rest] show ?case by blast
qed

lemma disarmed_after_Cancel:
  assumes "wf w"
  shows "\<forall>q \<in> set (waiting w). writes q \<longrightarrow>
           canceled (Cancel (write_cancelable (sock w)) (tokens w)) (guard q)"
    and "\<forall>q \<in> set (waiting w). reads q \<longrightarrow>
           canceled (Cancel (read_cancelable (sock w)) (tokens w)) (guard q)"
  using assms by (auto simp add: wf_def wf_defs Cancel_def)

lemma reachable_examples:
  "reachable established" "reachable in_flight"
proof -
  have "run handshake (TcpSocket_of_socket 7 \<lparr>current_endpoint = Some 9\<rparr>) = Inr established"
    by (simp add: eval_defs input_defs)
  then show "reachable established" unfolding reachable_def by blast
  have "run (handshake @ [call a_read, call a_write])
          (TcpSocket_of_socket 7 \<lparr>current_endpoint = Some 9\<rparr>) = Inr in_flight"
    by (simp add: eval_defs input_defs)
  then show "reachable in_flight" unfolding reachable_def by blast
qed

lemma CloseWrite_stays_pending:
  assumes "reachable w" and "CloseWrite shutdown_ec handler w = Inr (c, w')"
      and "run as w' = Inr v" and "\<forall>r. completion (length (pending w)) r \<notin> set as"
      and "\<not> canceled (tokens v) c"
  shows "writing (sock v) \<and> write_closed (sock v)"
proof -
  let ?n = "length (pending w)"
  have p: "perform (op_CloseWrite shutdown_ec handler) w = Inr (c, w')"
    using assms(2) by simp
  from assms(2) obtain e where
    q: "pending w' = pending w @ [Some (Queued (CloseWriteLambda handler c e))]"
    and wc: "write_closed (sock w')"
    by (auto simp add: CloseWrite_def new_Cancelable_def Let_def split: if_splits)
  from perform_pending[OF p] have c: "c < allocated (tokens w')" by auto
  from q have n: "?n < length (pending w')"
    "pending w' ! ?n = Some (Queued (CloseWriteLambda handler c e))" by simp_all
  from run_frame[OF assms(3) c n(1)] assms(4) n(2)
  have v: "?n < length (pending v)"
    "pending v ! ?n = Some (Queued (CloseWriteLambda handler c e))" by auto
  have "wf v"
    using run_wf[OF assms(3) perform_wf[OF p reachable_wf[OF assms(1)]]] .
  with nth_somes[OF v] have "armed_ok v (Queued (CloseWriteLambda handler c e))"
    by (simp add: wf_def waiting_def)
  with assms(5) have "writing (sock v)"
    by (simp add: armed_ok_def direction_ok_def)
  with run_closed[OF assms(3)] wc show ?thesis by simp
qed

section \<open>The claims\<close>

subsection \<open>Cancelation\<close>

text \<open>
  Claim C1. Let any of the seven operations (\<open>Open\<close>, \<open>Connect\<close>, \<open>Continue\<close>, \<open>Read\<close>,
  \<open>Write\<close>, \<open>CloseWrite\<close>, \<open>ReportError\<close>) succeed in a world \<open>w\<close> and return the token
  \<open>c\<close>. Whatever happens next, as long as the continuation of that operation has not run:
  once \<open>c\<close> is canceled, by whoever holds it, and whatever happens after that, the
  continuation, when the event loop (or the connector) finally runs it with a result of
  its kind, changes no member of the socket and no token, and calls nothing: the trace,
  which records every call of a handler, is as it was. The continuation is then spent, so
  the handler it holds is never called.
\<close>

theorem canceled_before_completion:
  assumes "perform p w = Inr (c, w1)"
      and "run before w1 = Inr wc" and "canceled (tokens wc) c"
      and "run later wc = Inr w2"
      and "\<forall>r. completion (length (pending w)) r \<notin> set (before @ later)"
      and "expects p r"
  shows "\<exists>w3. complete (length (pending w)) r w2 = Inr w3
           \<and> sock w3 = sock w2 \<and> tokens w3 = tokens w2 \<and> trace w3 = trace w2
           \<and> pending w3 = (pending w2)[length (pending w) := None]"
proof -
  let ?i = "length (pending w)"
  from perform_pending[OF assms(1)] assms(6) obtain q where
    q: "pending w1 = pending w @ [Some q]" "guard q = c" "awaits q r"
       "c < allocated (tokens w1)"
    by auto
  then have i1: "?i < length (pending w1)" "pending w1 ! ?i = Some q" by simp_all
  from assms(5) have nb: "\<forall>r. completion ?i r \<notin> set before"
    and na: "\<forall>r. completion ?i r \<notin> set later" by auto
  from run_frame[OF assms(2) q(4) i1(1)] nb i1
  have c: "c < allocated (tokens wc)" "?i < length (pending wc)" "pending wc ! ?i = Some q"
    by auto
  from run_frame[OF assms(4) c(1) c(2)] na c assms(3)
  have 2: "?i < length (pending w2)" "pending w2 ! ?i = Some q" "canceled (tokens w2) c"
    by auto
  from complete_canceled[OF 2(1) 2(2)] 2(3) q show ?thesis by simp
qed


theorem canceled_before_completion_witness:
  "perform a_read established = Inr (6, after (handshake @ [call a_read]) fresh)
   \<and> run [cancel 6] (after (handshake @ [call a_read]) fresh)
     = Inr (after (handshake @ [call a_read, cancel 6]) fresh)
   \<and> canceled (tokens (after (handshake @ [call a_read, cancel 6]) fresh)) 6
   \<and> run [call a_write] (after (handshake @ [call a_read, cancel 6]) fresh)
     = Inr (after (handshake @ [call a_read, cancel 6, call a_write]) fresh)
   \<and> (\<forall>r. completion (length (pending established)) r \<notin> set ([cancel 6] @ [call a_write]))
   \<and> expects a_read (io_result success 100)
   \<and> (\<exists>w3. complete 2 (io_result success 100)
              (after (handshake @ [call a_read, cancel 6, call a_write]) fresh) = Inr w3
           \<and> reading (sock w3) \<and> read_buffer (sock w3) = None
           \<and> trace w3 = [post, handler_call 1 None NoError, post, handler_call 2 None NoError,
                          async_read_some (Some [(0, 60), (100, 40)]), async_write [(200, 10)]])
   \<and> perform (op_Connect 2) unconnected = Inr (4, after [call (op_Connect 2)] unconnected)
   \<and> run [cancel 4] (after [call (op_Connect 2)] unconnected)
     = Inr (after [call (op_Connect 2), cancel 4] unconnected)
   \<and> canceled (tokens (after [call (op_Connect 2), cancel 4] unconnected)) 4
   \<and> run [] (after [call (op_Connect 2), cancel 4] unconnected)
     = Inr (after [call (op_Connect 2), cancel 4] unconnected)
   \<and> (\<forall>r. completion (length (pending unconnected)) r \<notin> set ([cancel 4] @ []))
   \<and> expects (op_Connect 2) (connect_result 8 NoError)
   \<and> (\<exists>w3. complete 0 (connect_result 8 NoError)
              (after [call (op_Connect 2), cancel 4] unconnected) = Inr w3
           \<and> state (sock w3) = Establishing \<and> socket (sock w3) = 0
           \<and> trace w3 = [connector_Connect 9])"
proof -
  let ?w1 = "after (handshake @ [call a_read]) fresh"
  let ?wc = "after (handshake @ [call a_read, cancel 6]) fresh"
  let ?w2 = "after (handshake @ [call a_read, cancel 6, call a_write]) fresh"
  let ?r = "io_result success 100"
  have 1: "perform a_read established = Inr (6, ?w1)"
    by (simp add: eval_defs input_defs)
  have 2: "run [cancel 6] ?w1 = Inr ?wc"
    by (simp add: eval_defs input_defs)
  have 3: "canceled (tokens ?wc) 6"
    by (simp add: eval_defs input_defs)
  have 4: "run [call a_write] ?wc = Inr ?w2"
    by (simp add: eval_defs input_defs)
  have 5: "\<forall>r. completion (length (pending established)) r \<notin> set ([cancel 6] @ [call a_write])"
    by simp
  have 6: "expects a_read ?r" by (simp add: a_read_def)
  have n: "length (pending established) = 2"
    by (simp add: eval_defs input_defs)
  from canceled_before_completion[OF 1 2 3 4 5 6] obtain w3 where
    w3: "complete 2 ?r ?w2 = Inr w3" "sock w3 = sock ?w2" "trace w3 = trace ?w2"
    unfolding n by auto
  have 7: "reading (sock ?w2)" "read_buffer (sock ?w2) = None"
     "trace ?w2 = [post, handler_call 1 None NoError, post, handler_call 2 None NoError,
                   async_read_some (Some [(0, 60), (100, 40)]), async_write [(200, 10)]]"
    by (simp_all add: eval_defs input_defs)
  from w3 7 have rd: "\<exists>w3. complete 2 ?r ?w2 = Inr w3
           \<and> reading (sock w3) \<and> read_buffer (sock w3) = None
           \<and> trace w3 = [post, handler_call 1 None NoError, post, handler_call 2 None NoError,
                          async_read_some (Some [(0, 60), (100, 40)]), async_write [(200, 10)]]"
    by simp
  let ?c1 = "after [call (op_Connect 2)] unconnected"
  let ?cc = "after [call (op_Connect 2), cancel 4] unconnected"
  let ?cr = "connect_result 8 NoError"
  have c1: "perform (op_Connect 2) unconnected = Inr (4, ?c1)"
    by (simp add: eval_defs input_defs)
  have c2: "run [cancel 4] ?c1 = Inr ?cc"
    by (simp add: eval_defs input_defs)
  have c3: "canceled (tokens ?cc) 4"
    by (simp add: eval_defs input_defs)
  have c4: "run [] ?cc = Inr ?cc" by simp
  have c5: "\<forall>r. completion (length (pending unconnected)) r \<notin> set ([cancel 4] @ [])"
    by simp
  have c6: "expects (op_Connect 2) ?cr" by simp
  have cn: "length (pending unconnected) = 0"
    by (simp add: eval_defs input_defs)
  from canceled_before_completion[OF c1 c2 c3 c4 c5 c6] obtain v3 where
    v3: "complete 0 ?cr ?cc = Inr v3" "sock v3 = sock ?cc" "trace v3 = trace ?cc"
    unfolding cn by auto
  have c7: "state (sock ?cc) = Establishing" "socket (sock ?cc) = 0"
     "trace ?cc = [connector_Connect 9]"
    by (simp_all add: eval_defs input_defs)
  from v3 c7 have cn: "\<exists>w3. complete 0 ?cr ?cc = Inr w3
           \<and> state (sock w3) = Establishing \<and> socket (sock w3) = 0
           \<and> trace w3 = [connector_Connect 9]"
    by simp
  from 1 2 3 4 5 6 rd c1 c2 c3 c4 c5 c6 cn show ?thesis by blast
qed

subsection \<open>End of file and fatal errors\<close>

text \<open>
  Claim C3. When the continuation of a \<open>Read\<close> runs with a live token and a failure that
  the translator maps to \<open>EndOfFile\<close>, the socket has \<open>read_closed\<close> set afterwards, its
  state is \<open>Closed\<close> if the write direction was closed and no write was in flight and
  \<open>Closing\<close> otherwise, and the one thing called is the handler, with the buffer and
  \<open>EndOfFile\<close>.
\<close>

theorem Read_end_of_file:
  assumes "i < length (pending w)"
      and "pending w ! i = Some (Queued (ReadLambda buffer buffer_wrapper handler cancelable))"
      and "\<not> canceled (tokens w) cancelable"
      and "failed ec" and "ConvertBoostError (sock w) ec = EndOfFile"
  shows "\<exists>w'. complete i (io_result ec n) w = Inr w'
           \<and> read_closed (sock w')
           \<and> state (sock w') =
               (if write_closed (sock w) \<and> \<not> writing (sock w) then Closed else Closing)
           \<and> trace w' = trace w @ [handler_call handler (Some buffer) EndOfFile]"
  using assms
  by (simp add: complete_Queued ReadLambda_call_def Let_def ConvertBoostError_def)

theorem Read_end_of_file_witness:
  "2 < length (pending in_flight)
   \<and> pending in_flight ! 2 =
       Some (Queued (ReadLambda (Buffer [(0, 60), (100, 40)]) [(0, 60), (100, 40)] 3 6))
   \<and> \<not> canceled (tokens in_flight) 6
   \<and> failed eof_condition \<and> ConvertBoostError (sock in_flight) eof_condition = EndOfFile
   \<and> (\<exists>w'. complete 2 (io_result eof_condition 0) in_flight = Inr w'
          \<and> read_closed (sock w') \<and> state (sock w') = Closing
          \<and> trace w' = trace in_flight @
               [handler_call 3 (Some (Buffer [(0, 60), (100, 40)])) EndOfFile])"
proof -
  have 1: "2 < length (pending in_flight)"
    and 2: "pending in_flight ! 2 =
       Some (Queued (ReadLambda (Buffer [(0, 60), (100, 40)]) [(0, 60), (100, 40)] 3 6))"
    and 3: "\<not> canceled (tokens in_flight) 6"
    and w: "\<not> (write_closed (sock in_flight) \<and> \<not> writing (sock in_flight))"
    by (simp_all add: input_defs eval_defs)
  note 4 = eof_condition_simps(1)
  have 5: "ConvertBoostError (sock in_flight) eof_condition = EndOfFile"
    by (rule eof_condition_simps)
  from Read_end_of_file[OF 1 2 3 4 5, of 0] w 1 2 3 4 5 show ?thesis by simp
qed

text \<open>
  Claim C4. A continuation of \<open>Write\<close> that runs with a live token and any failure, and a
  continuation of \<open>Read\<close> that runs with a live token and a failure that is not translated
  to \<open>EndOfFile\<close>, leave both directions closed and the state \<open>Closed\<close>, cancel the token
  of the other direction (the socket's read token after a write, its write token after a
  read), call the handler once with the translated error, and queue nothing: the pending
  operations are those of before without the one that ran. In a reachable world the
  token that is canceled is the one that guards the operation in flight in the other
  direction: afterwards every waiting continuation of that direction has a canceled
  guard.
\<close>

theorem fatal_errors:
  assumes "failed ec"
  shows "(i < length (pending w)
          \<and> pending w ! i = Some (Queued (WriteLambda buffer handler cancelable))
          \<and> \<not> canceled (tokens w) cancelable \<longrightarrow>
           (\<exists>w'. complete i (io_result ec n) w = Inr w'
              \<and> read_closed (sock w') \<and> write_closed (sock w') \<and> state (sock w') = Closed
              \<and> canceled (tokens w') (read_cancelable (sock w))
              \<and> (reachable w \<longrightarrow>
                   (\<forall>q \<in> set (waiting w'). reads q \<longrightarrow> canceled (tokens w') (guard q)))
              \<and> trace w' = trace w @ [handler_call handler None (ConvertBoostError (sock w) ec)]
              \<and> pending w' = (pending w)[i := None]))
       \<and> (j < length (pending w)
          \<and> pending w ! j = Some (Queued (ReadLambda rbuffer buffer_wrapper rhandler rcancelable))
          \<and> \<not> canceled (tokens w) rcancelable
          \<and> ConvertBoostError (sock w) ec \<noteq> EndOfFile \<longrightarrow>
           (\<exists>w'. complete j (io_result ec n) w = Inr w'
              \<and> read_closed (sock w') \<and> write_closed (sock w') \<and> state (sock w') = Closed
              \<and> canceled (tokens w') (write_cancelable (sock w))
              \<and> (reachable w \<longrightarrow>
                   (\<forall>q \<in> set (waiting w'). writes q \<longrightarrow> canceled (tokens w') (guard q)))
              \<and> trace w' = trace w @
                   [handler_call rhandler (Some rbuffer) (ConvertBoostError (sock w) ec)]
              \<and> pending w' = (pending w)[j := None]))"
proof -
  have wr: "\<exists>w'. complete i (io_result ec n) w = Inr w'
              \<and> read_closed (sock w') \<and> write_closed (sock w') \<and> state (sock w') = Closed
              \<and> canceled (tokens w') (read_cancelable (sock w))
              \<and> (reachable w \<longrightarrow>
                   (\<forall>q \<in> set (waiting w'). reads q \<longrightarrow> canceled (tokens w') (guard q)))
              \<and> trace w' = trace w @ [handler_call handler None (ConvertBoostError (sock w) ec)]
              \<and> pending w' = (pending w)[i := None]"
    if h: "i < length (pending w)"
      "pending w ! i = Some (Queued (WriteLambda buffer handler cancelable))"
      "\<not> canceled (tokens w) cancelable"
  proof -
    let ?w' = "w\<lparr>pending := (pending w)[i := None],
                 sock := (sock w)\<lparr>writing := False, read_closed := True, write_closed := True,
                                  state := Closed\<rparr>,
                 tokens := Cancel (read_cancelable (sock w)) (tokens w),
                 trace := trace w @ [handler_call handler None (ConvertBoostError (sock w) ec)]\<rparr>"
    from h assms have c: "complete i (io_result ec n) w = Inr ?w'"
      by (simp add: complete_Queued WriteLambda_call_def Let_def ConvertBoostError_def)
    have r: "\<forall>q \<in> set (waiting ?w'). reads q \<longrightarrow> canceled (tokens ?w') (guard q)"
      if "reachable w"
      using disarmed_after_Cancel(2)[OF reachable_wf[OF that]] somes_update_subset[of "pending w" i]
      by (auto simp add: waiting_def)
    from c r show ?thesis
      by (simp add: canceled_def Cancel_def)
  qed
  have rd: "\<exists>w'. complete j (io_result ec n) w = Inr w'
              \<and> read_closed (sock w') \<and> write_closed (sock w') \<and> state (sock w') = Closed
              \<and> canceled (tokens w') (write_cancelable (sock w))
              \<and> (reachable w \<longrightarrow>
                   (\<forall>q \<in> set (waiting w'). writes q \<longrightarrow> canceled (tokens w') (guard q)))
              \<and> trace w' = trace w @
                   [handler_call rhandler (Some rbuffer) (ConvertBoostError (sock w) ec)]
              \<and> pending w' = (pending w)[j := None]"
    if h: "j < length (pending w)"
      "pending w ! j = Some (Queued (ReadLambda rbuffer buffer_wrapper rhandler rcancelable))"
      "\<not> canceled (tokens w) rcancelable" "ConvertBoostError (sock w) ec \<noteq> EndOfFile"
  proof -
    let ?w' = "w\<lparr>pending := (pending w)[j := None],
                 sock := (sock w)\<lparr>reading := False, state := Closed, read_closed := True,
                                  write_closed := True\<rparr>,
                 tokens := Cancel (write_cancelable (sock w)) (tokens w),
                 trace := trace w @
                   [handler_call rhandler (Some rbuffer) (ConvertBoostError (sock w) ec)]\<rparr>"
    from h assms have c: "complete j (io_result ec n) w = Inr ?w'"
      by (simp add: complete_Queued ReadLambda_call_def Let_def ConvertBoostError_def)
    have r: "\<forall>q \<in> set (waiting ?w'). writes q \<longrightarrow> canceled (tokens ?w') (guard q)"
      if "reachable w"
      using disarmed_after_Cancel(1)[OF reachable_wf[OF that]] somes_update_subset[of "pending w" j]
      by (auto simp add: waiting_def)
    from c r show ?thesis
      by (simp add: canceled_def Cancel_def)
  qed
  from wr rd show ?thesis by blast
qed

theorem fatal_errors_witness:
  "failed reset_condition
   \<and> 3 < length (pending in_flight)
   \<and> pending in_flight ! 3 = Some (Queued (WriteLambda (Buffer [(200, 10)]) 4 7))
   \<and> \<not> canceled (tokens in_flight) 7
   \<and> 2 < length (pending in_flight)
   \<and> pending in_flight ! 2 =
       Some (Queued (ReadLambda (Buffer [(0, 60), (100, 40)]) [(0, 60), (100, 40)] 3 6))
   \<and> \<not> canceled (tokens in_flight) 6
   \<and> ConvertBoostError (sock in_flight) reset_condition \<noteq> EndOfFile
   \<and> reachable in_flight
   \<and> (\<exists>w'. complete 3 (io_result reset_condition 0) in_flight = Inr w'
          \<and> read_closed (sock w') \<and> write_closed (sock w') \<and> state (sock w') = Closed
          \<and> canceled (tokens w') 6
          \<and> (\<forall>q \<in> set (waiting w'). reads q \<longrightarrow> canceled (tokens w') (guard q))
          \<and> trace w' = trace in_flight @ [handler_call 4 None ConnectionReset]
          \<and> pending w' = (pending in_flight)[3 := None])
   \<and> (\<exists>w'. complete 2 (io_result reset_condition 0) in_flight = Inr w'
          \<and> read_closed (sock w') \<and> write_closed (sock w') \<and> state (sock w') = Closed
          \<and> canceled (tokens w') 7
          \<and> (\<forall>q \<in> set (waiting w'). writes q \<longrightarrow> canceled (tokens w') (guard q))
          \<and> trace w' = trace in_flight @
               [handler_call 3 (Some (Buffer [(0, 60), (100, 40)])) ConnectionReset]
          \<and> pending w' = (pending in_flight)[2 := None])"
proof -
  have 0: "failed reset_condition"
    by (simp add: input_defs basic_errors_defs)
  have 1: "3 < length (pending in_flight)"
    and 2: "pending in_flight ! 3 = Some (Queued (WriteLambda (Buffer [(200, 10)]) 4 7))"
    and 3: "\<not> canceled (tokens in_flight) 7"
    and 4: "2 < length (pending in_flight)"
    and 5: "pending in_flight ! 2 =
       Some (Queued (ReadLambda (Buffer [(0, 60), (100, 40)]) [(0, 60), (100, 40)] 3 6))"
    and 6: "\<not> canceled (tokens in_flight) 6"
    and rc: "read_cancelable (sock in_flight) = 6" "write_cancelable (sock in_flight) = 7"
    by (simp_all add: eval_defs input_defs)
  have 7: "ConvertBoostError (sock in_flight) reset_condition = ConnectionReset"
    by (simp add: ConvertBoostError_def reset_condition_def basic_errors_defs)
  note 8 = reachable_examples(2)
  from fatal_errors[OF 0, of 3 in_flight "Buffer [(200, 10)]" 4 7 0
      2 "Buffer [(0, 60), (100, 40)]" "[(0, 60), (100, 40)]" 3 6]
    0 1 2 3 4 5 6 7 8 rc
  show ?thesis by simp
qed

subsection \<open>The buffer after a read\<close>

text \<open>
  Claim C7. When the continuation of a \<open>Read\<close> runs with a live token and no failure after
  \<open>k\<close> bytes were transferred into a buffer of size \<open>n\<close>: if \<open>k < n\<close> the buffer is
  shrunk from the back once, by \<open>n - k\<close>, and the buffer handed to the handler has size
  \<open>k\<close>; if \<open>k = n\<close> no shrink is applied and the handler gets the buffer as it was.
\<close>

theorem Read_reconcile:
  assumes "\<not> canceled (tokens w) cancelable" and "\<not> failed ec"
      and "k \<le> Buffer_size buffer"
  shows "\<exists>w' handed.
           ReadLambda_call buffer buffer_wrapper handler cancelable ec k w = Inr w'
         \<and> Buffer_size handed = k
         \<and> trace w' = trace w @
             (if k < Buffer_size buffer then [ShrinkBack_call (Buffer_size buffer - k)] else [])
             @ [handler_call handler (Some handed) NoError]
         \<and> (k = Buffer_size buffer \<longrightarrow> handed = buffer)
         \<and> (k < Buffer_size buffer \<longrightarrow> ShrinkBack (Buffer_size buffer - k) buffer = Some handed)"
proof (cases "k = Buffer_size buffer")
  case True
  with assms show ?thesis by (simp add: ReadLambda_call_def Let_def)
next
  case False
  with assms have lt: "k < Buffer_size buffer" by simp
  obtain b' where b': "ShrinkBack (Buffer_size buffer - k) buffer = Some b'"
    and sz: "Buffer_size b' = Buffer_size buffer - (Buffer_size buffer - k)"
    using ShrinkBack_size[of "Buffer_size buffer - k" buffer] by auto
  from assms lt b' sz show ?thesis
    by (simp add: ReadLambda_call_def Let_def size_t_sub_def)
qed


theorem Read_reconcile_witness:
  "\<not> canceled (tokens in_flight) 6 \<and> \<not> failed success
   \<and> 70 \<le> Buffer_size (Buffer [(0, 60), (100, 40)])
   \<and> (\<exists>w' handed.
         ReadLambda_call (Buffer [(0, 60), (100, 40)]) [(0, 60), (100, 40)] 3 6 success 70
           in_flight = Inr w'
       \<and> Buffer_size handed = 70
       \<and> trace w' = trace in_flight @
           [ShrinkBack_call 30, handler_call 3 (Some handed) NoError]
       \<and> ShrinkBack 30 (Buffer [(0, 60), (100, 40)]) = Some handed)"
proof -
  have 1: "\<not> canceled (tokens in_flight) 6"
    by (simp add: eval_defs input_defs)
  have 2: "\<not> failed success"
    by (simp add: input_defs)
  have 3: "70 \<le> Buffer_size (Buffer [(0, 60), (100, 40)])"
    and sz: "Buffer_size (Buffer [(0, 60), (100, 40)]) = 100"
    by (simp_all add: Buffer_size_def)
  from Read_reconcile[OF 1 2 3, of "[(0, 60), (100, 40)]" 3] 1 2 3 show ?thesis
    unfolding sz by simp
qed

subsection \<open>The error translator\<close>

text \<open>
  Claim C9. The translator maps operation-aborted to \<open>Canceled\<close>, connection-aborted to
  \<open>ConnectionAborted\<close>, connection-reset to \<open>ConnectionReset\<close>, host-unreachable to
  \<open>HostUnreachable\<close>, network-down to \<open>NetworkDown\<close>, network-reset to \<open>NetworkReset\<close>,
  network-unreachable to \<open>NetworkUnreachable\<close>, timed-out to \<open>TimedOut\<close> and end-of-file to
  \<open>EndOfFile\<close>; every other condition comes back as the platform error itself, wrapped,
  not as \<open>UnknownError\<close>; and the result depends on the condition alone, not on the socket.
\<close>

theorem ConvertBoostError_mapping:
  "ConvertBoostError this (boost_error_code system_category operation_aborted) = Canceled
   \<and> ConvertBoostError this (boost_error_code system_category connection_aborted)
       = ConnectionAborted
   \<and> ConvertBoostError this (boost_error_code system_category connection_reset)
       = ConnectionReset
   \<and> ConvertBoostError this (boost_error_code system_category host_unreachable)
       = HostUnreachable
   \<and> ConvertBoostError this (boost_error_code system_category network_down) = NetworkDown
   \<and> ConvertBoostError this (boost_error_code system_category network_reset) = NetworkReset
   \<and> ConvertBoostError this (boost_error_code system_category network_unreachable)
       = NetworkUnreachable
   \<and> ConvertBoostError this (boost_error_code system_category timed_out) = TimedOut
   \<and> ConvertBoostError this (boost_error_code misc_category eof) = EndOfFile
   \<and> (ec \<notin> set mapped_conditions \<longrightarrow>
        ConvertBoostError this ec = make_error_code ec \<and>
        ConvertBoostError this ec \<noteq> UnknownError)
   \<and> ConvertBoostError this ec = ConvertBoostError that ec"
proof -
  have tab: "map (ConvertBoostError this) mapped_conditions =
     [Canceled, ConnectionAborted, ConnectionReset, HostUnreachable, NetworkDown,
      NetworkReset, NetworkUnreachable, TimedOut, EndOfFile]"
    by (simp add: mapped_conditions_def ConvertBoostError_def basic_errors_defs)
  have fb: "ec \<notin> set mapped_conditions \<Longrightarrow> ConvertBoostError this ec = make_error_code ec"
    by (cases ec) (auto simp add: mapped_conditions_def ConvertBoostError_def)
  have pure: "ConvertBoostError this ec = ConvertBoostError that ec"
    by (simp add: ConvertBoostError_def)
  from tab fb pure show ?thesis by (simp add: mapped_conditions_def)
qed

theorem ConvertBoostError_mapping_witness:
  "boost_error_code misc_category connection_reset \<notin> set mapped_conditions
   \<and> ConvertBoostError (sock (TcpSocket_of_socket 7 \<lparr>current_endpoint = None\<rparr>))
        (boost_error_code misc_category connection_reset)
      = make_error_code (boost_error_code misc_category 104)"
  using ConvertBoostError_mapping
    [of "sock (TcpSocket_of_socket 7 \<lparr>current_endpoint = None\<rparr>)"
        "boost_error_code misc_category connection_reset"]
  by (simp add: mapped_conditions_def basic_errors_defs)


subsection \<open>Half close\<close>



text \<open>The two halves of \<open>CloseWrite\<close>: the call and its continuation.\<close>

lemma CloseWriteLambda_live:
  assumes "i < length (pending v)"
      and "pending v ! i = Some (Queued (CloseWriteLambda handler c error))"
      and "\<not> canceled (tokens v) c"
  shows "\<exists>v'. complete i posted v = Inr v'
             \<and> state (sock v') = (if read_closed (sock v) then Closed else state (sock v))
             \<and> write_closed (sock v') = write_closed (sock v)
             \<and> trace v' = trace v @ [handler_call handler None error]"
  using assms by (simp add: complete_Queued CloseWriteLambda_call_def Let_def)

lemma CloseWrite_issue:
  assumes "\<not> writing (sock w)" and "state (sock w) \<noteq> Closed"
  shows "\<exists>w'. CloseWrite shutdown_ec handler w = Inr (allocated (tokens w), w')
      \<and> write_closed (sock w') \<and> state (sock w') = Closing
      \<and> trace w' = trace w @ (if write_closed (sock w) then [] else [shutdown_send]) @ [post]
      \<and> pending w' = pending w @ [Some (Queued (CloseWriteLambda handler (allocated (tokens w))
            (if write_closed (sock w) then NoError
             else ConvertBoostError (sock w) shutdown_ec)))]"
  using assms
  by (simp add: CloseWrite_def new_Cancelable_def Let_def ConvertBoostError_def)

text \<open>
  Claim C6. \<open>CloseWrite\<close>, called while no write is in flight and the state is not
  \<open>Closed\<close>, returns a token and leaves \<open>write_closed\<close> set and the state \<open>Closing\<close>. If
  the write direction was closed already it asks for no shutdown and posts a continuation
  that carries \<open>NoError\<close>; otherwise it asks for the send-direction shutdown and posts a
  continuation that carries the translation of the shutdown's outcome, whatever that is.
  It calls no handler itself. The continuation, run with a live token in any later world,
  sets the state to \<open>Closed\<close> if the read direction is closed then and leaves the state
  alone if not, leaves \<open>write_closed\<close> as it is, and calls the handler with the error it
  carries.
\<close>

theorem CloseWrite_half_close:
  assumes "\<not> writing (sock w)" and "state (sock w) \<noteq> Closed"
  shows "\<exists>c w'. CloseWrite shutdown_ec handler w = Inr (c, w')
      \<and> write_closed (sock w') \<and> state (sock w') = Closing
      \<and> trace w' = trace w @ (if write_closed (sock w) then [] else [shutdown_send]) @ [post]
      \<and> pending w' = pending w @ [Some (Queued (CloseWriteLambda handler c
            (if write_closed (sock w) then NoError
             else ConvertBoostError (sock w) shutdown_ec)))]
      \<and> (\<forall>v i error. i < length (pending v)
            \<and> pending v ! i = Some (Queued (CloseWriteLambda handler c error))
            \<and> \<not> canceled (tokens v) c \<longrightarrow>
          (\<exists>v'. complete i posted v = Inr v'
             \<and> state (sock v') = (if read_closed (sock v) then Closed else state (sock v))
             \<and> write_closed (sock v') = write_closed (sock v)
             \<and> trace v' = trace v @ [handler_call handler None error]))"
proof -
  from CloseWrite_issue[OF assms, of shutdown_ec handler] obtain w' where
    w': "CloseWrite shutdown_ec handler w = Inr (allocated (tokens w), w')
      \<and> write_closed (sock w') \<and> state (sock w') = Closing
      \<and> trace w' = trace w @ (if write_closed (sock w) then [] else [shutdown_send]) @ [post]
      \<and> pending w' = pending w @ [Some (Queued (CloseWriteLambda handler (allocated (tokens w))
            (if write_closed (sock w) then NoError
             else ConvertBoostError (sock w) shutdown_ec)))]" by blast
  show ?thesis
    apply (rule exI[of _ "allocated (tokens w)"])
    apply (rule exI[of _ w'])
    using w' CloseWriteLambda_live by blast
qed

theorem CloseWrite_half_close_witness:
  "\<not> writing (sock established) \<and> state (sock established) \<noteq> Closed
   \<and> CloseWrite reset_condition 5 established
       = Inr (6, after (handshake @ [call (op_CloseWrite reset_condition 5)]) fresh)
   \<and> 2 < length (pending (after (handshake @ [call (op_CloseWrite reset_condition 5)]) fresh))
   \<and> pending (after (handshake @ [call (op_CloseWrite reset_condition 5)]) fresh) ! 2
       = Some (Queued (CloseWriteLambda 5 6 ConnectionReset))
   \<and> \<not> canceled (tokens (after (handshake @ [call (op_CloseWrite reset_condition 5)]) fresh)) 6
   \<and> (\<exists>v'. complete 2 posted (after (handshake @ [call (op_CloseWrite reset_condition 5)]) fresh)
             = Inr v'
          \<and> state (sock v') = Closing \<and> write_closed (sock v')
          \<and> trace v' = [post, handler_call 1 None NoError, post, handler_call 2 None NoError,
                         shutdown_send, post, handler_call 5 None ConnectionReset])"
proof -
  let ?v = "after (handshake @ [call (op_CloseWrite reset_condition 5)]) fresh"
  have 1: "\<not> writing (sock established)" and 2: "state (sock established) \<noteq> Closed"
    by (simp_all add: eval_defs input_defs)
  have 3: "CloseWrite reset_condition 5 established = Inr (6, ?v)"
    by (simp add: eval_defs input_defs ConvertBoostError_def basic_errors_defs)
  have 4: "2 < length (pending ?v)"
    and 5: "pending ?v ! 2 = Some (Queued (CloseWriteLambda 5 6 ConnectionReset))"
    and 6: "\<not> canceled (tokens ?v) 6"
    and 7: "\<not> read_closed (sock ?v)" "state (sock ?v) = Closing" "write_closed (sock ?v)"
      "trace ?v = [post, handler_call 1 None NoError, post, handler_call 2 None NoError,
                         shutdown_send, post]"
    by (simp_all add: eval_defs input_defs ConvertBoostError_def basic_errors_defs)
  from CloseWrite_half_close[OF 1 2, of reset_condition 5] 3
  have "\<forall>v i error. i < length (pending v)
            \<and> pending v ! i = Some (Queued (CloseWriteLambda 5 6 error))
            \<and> \<not> canceled (tokens v) 6 \<longrightarrow>
          (\<exists>v'. complete i posted v = Inr v'
             \<and> state (sock v') = (if read_closed (sock v) then Closed else state (sock v))
             \<and> write_closed (sock v') = write_closed (sock v)
             \<and> trace v' = trace v @ [handler_call 5 None error])"
    by auto
  with 4 5 6 have "\<exists>v'. complete 2 posted ?v = Inr v'
             \<and> state (sock v') = (if read_closed (sock ?v) then Closed else state (sock ?v))
             \<and> write_closed (sock v') = write_closed (sock ?v)
             \<and> trace v' = trace ?v @ [handler_call 5 None ConnectionReset]"
    by blast
  with 7 have "\<exists>v'. complete 2 posted ?v = Inr v'
          \<and> state (sock v') = Closing \<and> write_closed (sock v')
          \<and> trace v' = [post, handler_call 1 None NoError, post, handler_call 2 None NoError,
                         shutdown_send, post, handler_call 5 None ConnectionReset]"
    by simp
  with 1 2 3 4 5 6 show ?thesis by blast
qed


subsection \<open>The scratch span lists\<close>

text \<open>
  Claim C8, as stated, fails: the span list is not cleared on every completion path.
  After a write that fails, \<open>write_buffer\<close> still holds the spans of the buffer that was
  written; after a read that fails, \<open>read_buffer\<close> is not cleared but gone, moved into
  the continuation and never moved back.
\<close>

theorem scratch_not_cleared:
  "scratch_after (handshake @ [call a_write, completion 2 (io_result reset_condition 0)]) fresh
     = Some (Some [], Some [(200, 10)])
   \<and> scratch_after (handshake @ [call a_write, completion 2 (io_result reset_condition 0)]) fresh
     \<noteq> Some (Some [], Some [])
   \<and> scratch_after (handshake @ [call a_read, completion 2 (io_result reset_condition 0)]) fresh
     = Some (None, Some [])
   \<and> scratch_after (handshake @ [call a_read, completion 2 (io_result reset_condition 0)]) fresh
     \<noteq> Some (Some [], Some [])"
  by (simp add: scratch_after_def eval_defs input_defs ConvertBoostError_def basic_errors_defs)

lemma Read_spans:
  assumes "Read arg_order buffer handler w = Inr (c, w')"
  shows "read_buffer (sock w) = Some []
    \<and> pending w' = pending w @
        [Some (Queued (ReadLambda buffer (WalkInternalChunk buffer) handler c))]
    \<and> read_buffer (sock w') = None
    \<and> (arg_order = sequence_first \<longrightarrow>
          trace w' = trace w @ [async_read_some (Some (WalkInternalChunk buffer))])"
  using assms
  by (simp add: Read_def new_Cancelable_def Let_def split: if_splits option.splits) auto

lemma Write_spans:
  assumes "Write buffer handler w = Inr (c, w')"
  shows "write_buffer (sock w) = Some []
    \<and> trace w' = trace w @ [async_write (WalkInternalChunk buffer)]
    \<and> write_buffer (sock w') = Some (WalkInternalChunk buffer)"
  using assms
  by (simp add: Write_def new_Cancelable_def Let_def split: if_splits option.splits) auto

lemma ReadLambda_spans:
  assumes "ReadLambda_call buffer buffer_wrapper handler c ec k w = Inr w'"
  shows "read_buffer (sock w') =
        (if \<not> canceled (tokens w) c \<and> \<not> failed ec then Some [] else read_buffer (sock w))"
  using assms
  by (simp add: ReadLambda_call_def Let_def split: if_splits option.splits) auto

lemma WriteLambda_spans:
  assumes "WriteLambda_call buffer handler c ec k w = Inr w'"
  shows "write_buffer (sock w') =
        (if \<not> canceled (tokens w) c \<and> \<not> failed ec then Some [] else write_buffer (sock w))"
  using assms
  by (simp add: WriteLambda_call_def Let_def split: if_splits option.splits) auto

text \<open>
  Claim C8, amended. \<open>Read\<close> and \<open>Write\<close> are accepted only when the span list of their
  direction is present and empty, and the list they build holds exactly one span per
  chunk of the buffer of this call, in order. \<open>Write\<close> keeps the list in the member and
  hands it to the write request. \<open>Read\<close> moves the list into its continuation and leaves
  the member empty-handed; the read request receives exactly those spans when the
  sequence argument is evaluated before the lambda is built, and nothing is claimed of
  what it receives in the other order. A continuation of \<open>Read\<close> or \<open>Write\<close> that runs
  with a live token and no failure leaves the span list of its direction present and
  empty; one that runs with a canceled token or a failure leaves the member as it found
  it.
\<close>

theorem scratch_spans:
  "(Read arg_order buffer handler w = Inr (c, w') \<longrightarrow>
      read_buffer (sock w) = Some []
    \<and> pending w' = pending w @
        [Some (Queued (ReadLambda buffer (WalkInternalChunk buffer) handler c))]
    \<and> read_buffer (sock w') = None
    \<and> (arg_order = sequence_first \<longrightarrow>
          trace w' = trace w @ [async_read_some (Some (WalkInternalChunk buffer))]))
 \<and> (Write buffer handler w = Inr (c, w') \<longrightarrow>
      write_buffer (sock w) = Some []
    \<and> trace w' = trace w @ [async_write (WalkInternalChunk buffer)]
    \<and> write_buffer (sock w') = Some (WalkInternalChunk buffer))
 \<and> (ReadLambda_call buffer buffer_wrapper handler t ec k v = Inr v' \<longrightarrow>
      read_buffer (sock v') =
        (if \<not> canceled (tokens v) t \<and> \<not> failed ec then Some [] else read_buffer (sock v)))
 \<and> (WriteLambda_call buffer handler t ec k v = Inr v' \<longrightarrow>
      write_buffer (sock v') =
        (if \<not> canceled (tokens v) t \<and> \<not> failed ec then Some [] else write_buffer (sock v)))"
proof (intro conjI)
  show "Read arg_order buffer handler w = Inr (c, w') \<longrightarrow>
      read_buffer (sock w) = Some []
    \<and> pending w' = pending w @
        [Some (Queued (ReadLambda buffer (WalkInternalChunk buffer) handler c))]
    \<and> read_buffer (sock w') = None
    \<and> (arg_order = sequence_first \<longrightarrow>
          trace w' = trace w @ [async_read_some (Some (WalkInternalChunk buffer))])"
    by (rule impI) (rule Read_spans)
  show "Write buffer handler w = Inr (c, w') \<longrightarrow>
      write_buffer (sock w) = Some []
    \<and> trace w' = trace w @ [async_write (WalkInternalChunk buffer)]
    \<and> write_buffer (sock w') = Some (WalkInternalChunk buffer)"
    by (rule impI) (rule Write_spans)
  show "ReadLambda_call buffer buffer_wrapper handler t ec k v = Inr v' \<longrightarrow>
      read_buffer (sock v') =
        (if \<not> canceled (tokens v) t \<and> \<not> failed ec then Some [] else read_buffer (sock v))"
    by (rule impI) (rule ReadLambda_spans)
  show "WriteLambda_call buffer handler t ec k v = Inr v' \<longrightarrow>
      write_buffer (sock v') =
        (if \<not> canceled (tokens v) t \<and> \<not> failed ec then Some [] else write_buffer (sock v))"
    by (rule impI) (rule WriteLambda_spans)
qed

theorem scratch_spans_witness:
  "Read sequence_first (Buffer [(0, 60), (100, 40)]) 3 established
     = Inr (6, after (handshake @ [call a_read]) fresh)
   \<and> Write (Buffer [(200, 10)]) 4 (after (handshake @ [call a_read]) fresh) = Inr (7, in_flight)
   \<and> ReadLambda_call (Buffer [(0, 60), (100, 40)]) [(0, 60), (100, 40)] 3 6 success 100 in_flight
     = Inr (after [completion 2 (io_result success 100)] in_flight
              \<lparr>pending := pending in_flight\<rparr>)
   \<and> WriteLambda_call (Buffer [(200, 10)]) 4 7 success 10 in_flight
     = Inr (after [completion 3 (io_result success 10)] in_flight
              \<lparr>pending := pending in_flight\<rparr>)
   \<and> read_buffer (sock established) = Some []
   \<and> pending (after (handshake @ [call a_read]) fresh) = pending established @
        [Some (Queued (ReadLambda (Buffer [(0, 60), (100, 40)]) [(0, 60), (100, 40)] 3 6))]
   \<and> read_buffer (sock (after (handshake @ [call a_read]) fresh)) = None
   \<and> trace (after (handshake @ [call a_read]) fresh) = trace established @
        [async_read_some (Some [(0, 60), (100, 40)])]
   \<and> write_buffer (sock (after (handshake @ [call a_read]) fresh)) = Some []
   \<and> write_buffer (sock in_flight) = Some [(200, 10)]
   \<and> trace in_flight = trace (after (handshake @ [call a_read]) fresh) @
        [async_write [(200, 10)]]
   \<and> read_buffer (sock (after [completion 2 (io_result success 100)] in_flight)) = Some []
   \<and> write_buffer (sock (after [completion 3 (io_result success 10)] in_flight)) = Some []"
proof -
  let ?w1 = "after (handshake @ [call a_read]) fresh"
  let ?vr = "after [completion 2 (io_result success 100)] in_flight"
  let ?vw = "after [completion 3 (io_result success 10)] in_flight"
  have 1: "Read sequence_first (Buffer [(0, 60), (100, 40)]) 3 established = Inr (6, ?w1)"
    by (simp add: eval_defs input_defs)
  have 2: "Write (Buffer [(200, 10)]) 4 ?w1 = Inr (7, in_flight)"
    by (simp add: eval_defs input_defs)
  have 3: "ReadLambda_call (Buffer [(0, 60), (100, 40)]) [(0, 60), (100, 40)] 3 6 success 100
             in_flight = Inr (?vr\<lparr>pending := pending in_flight\<rparr>)"
    by (simp add: eval_defs input_defs)
  have 4: "WriteLambda_call (Buffer [(200, 10)]) 4 7 success 10 in_flight
             = Inr (?vw\<lparr>pending := pending in_flight\<rparr>)"
    by (simp add: eval_defs input_defs)
  have 5: "\<not> canceled (tokens in_flight) 6" "\<not> canceled (tokens in_flight) 7"
    "\<not> failed success"
    by (simp_all add: eval_defs input_defs)
  from scratch_spans[of sequence_first "Buffer [(0, 60), (100, 40)]" 3 established 6 ?w1]
       scratch_spans[of _ "Buffer [(200, 10)]" 4 ?w1 7 in_flight]
       scratch_spans[of _ "Buffer [(0, 60), (100, 40)]" _ _ _ _ "[(0, 60), (100, 40)]" 6 success
                        100 in_flight "?vr\<lparr>pending := pending in_flight\<rparr>"]
       scratch_spans[of _ "Buffer [(200, 10)]" 4 _ _ _ _ 7 success 10 in_flight
                        "?vw\<lparr>pending := pending in_flight\<rparr>"]
       1 2 3 4 5
  show ?thesis by (simp add: WalkInternalChunk_def)
qed

subsection \<open>The write queries\<close>

text \<open>
  Claim C10. Where its assertion holds, \<open>IsWriting\<close> returns true exactly when the
  writing flag is set and the write direction is not closed, and \<open>IsWriteClosing\<close>
  returns true exactly when \<open>write_closed\<close> and the writing flag are both set. After a
  successful \<open>CloseWrite\<close> on a reachable socket, whatever happens next, as long as its
  continuation has not run and its token is live, the writing flag and \<open>write_closed\<close>
  are both set, so that \<open>IsWriting\<close> returns false and \<open>IsWriteClosing\<close> returns true
  wherever they may be asked.
\<close>

theorem write_queries:
  "(CAN_CHECK_DATA_STATE (state this) \<longrightarrow>
      IsWriting CAN_CHECK_DATA_STATE this = Inr (writing this \<and> \<not> write_closed this))
   \<and> (CAN_CHECK_CLOSE_STATE (state this) \<longrightarrow>
      IsWriteClosing CAN_CHECK_CLOSE_STATE this = Inr (write_closed this \<and> writing this))
   \<and> (reachable w \<and> CloseWrite shutdown_ec handler w = Inr (c, w')
       \<and> run as w' = Inr v \<and> (\<forall>r. completion (length (pending w)) r \<notin> set as)
       \<and> \<not> canceled (tokens v) c \<longrightarrow>
        writing (sock v) \<and> write_closed (sock v)
      \<and> (CAN_CHECK_DATA_STATE (state (sock v)) \<longrightarrow>
            IsWriting CAN_CHECK_DATA_STATE (sock v) = Inr False)
      \<and> (CAN_CHECK_CLOSE_STATE (state (sock v)) \<longrightarrow>
            IsWriteClosing CAN_CHECK_CLOSE_STATE (sock v) = Inr True))"
proof -
  have a: "CAN_CHECK_DATA_STATE (state this) \<longrightarrow>
      IsWriting CAN_CHECK_DATA_STATE this = Inr (writing this \<and> \<not> write_closed this)"
    by (simp add: IsWriting_def)
  have b: "CAN_CHECK_CLOSE_STATE (state this) \<longrightarrow>
      IsWriteClosing CAN_CHECK_CLOSE_STATE this = Inr (write_closed this \<and> writing this)"
    by (simp add: IsWriteClosing_def)
  have c: "writing (sock v) \<and> write_closed (sock v)"
    if "reachable w \<and> CloseWrite shutdown_ec handler w = Inr (c, w')
       \<and> run as w' = Inr v \<and> (\<forall>r. completion (length (pending w)) r \<notin> set as)
       \<and> \<not> canceled (tokens v) c"
    using that CloseWrite_stays_pending[of w shutdown_ec handler c w' as v] by blast
  from a b c show ?thesis
    by (simp add: IsWriting_def IsWriteClosing_def)
qed

theorem write_queries_witness:
  "(\<lambda>s. s = Established \<or> s = Closing) (state (sock in_flight))
   \<and> IsWriting (\<lambda>s. s = Established \<or> s = Closing) (sock in_flight) = Inr True
   \<and> (\<lambda>s. s \<noteq> Establishing) (state (sock in_flight))
   \<and> IsWriteClosing (\<lambda>s. s \<noteq> Establishing) (sock in_flight) = Inr False
   \<and> reachable established
   \<and> CloseWrite success 5 established
       = Inr (6, after (handshake @ [call (op_CloseWrite success 5)]) fresh)
   \<and> run [call a_read] (after (handshake @ [call (op_CloseWrite success 5)]) fresh)
       = Inr (after (handshake @ [call (op_CloseWrite success 5), call a_read]) fresh)
   \<and> (\<forall>r. completion (length (pending established)) r \<notin> set [call a_read])
   \<and> \<not> canceled
        (tokens (after (handshake @ [call (op_CloseWrite success 5), call a_read]) fresh)) 6
   \<and> (\<lambda>s. s = Established \<or> s = Closing)
        (state (sock (after (handshake @ [call (op_CloseWrite success 5), call a_read]) fresh)))
   \<and> IsWriting (\<lambda>s. s = Established \<or> s = Closing)
        (sock (after (handshake @ [call (op_CloseWrite success 5), call a_read]) fresh))
       = Inr False
   \<and> (\<lambda>s. s \<noteq> Establishing)
        (state (sock (after (handshake @ [call (op_CloseWrite success 5), call a_read]) fresh)))
   \<and> IsWriteClosing (\<lambda>s. s \<noteq> Establishing)
        (sock (after (handshake @ [call (op_CloseWrite success 5), call a_read]) fresh))
       = Inr True"
proof -
  let ?D = "\<lambda>s. s = Established \<or> s = Closing"
  let ?C = "\<lambda>s. s \<noteq> Establishing"
  let ?w' = "after (handshake @ [call (op_CloseWrite success 5)]) fresh"
  let ?v = "after (handshake @ [call (op_CloseWrite success 5), call a_read]) fresh"
  have 1: "?D (state (sock in_flight))" and 2: "?C (state (sock in_flight))"
    and 3: "writing (sock in_flight)" "\<not> write_closed (sock in_flight)"
    by (simp_all add: eval_defs input_defs)
  note 4 = reachable_examples(1)
  have 5: "CloseWrite success 5 established = Inr (6, ?w')"
    by (simp add: eval_defs input_defs ConvertBoostError_def basic_errors_defs)
  have 6: "run [call a_read] ?w' = Inr ?v"
    by (simp add: eval_defs input_defs ConvertBoostError_def basic_errors_defs)
  have 7: "\<forall>r. completion (length (pending established)) r \<notin> set [call a_read]"
    by simp
  have 8: "\<not> canceled (tokens ?v) 6" and 9: "?D (state (sock ?v))" "?C (state (sock ?v))"
    by (simp_all add: eval_defs input_defs ConvertBoostError_def basic_errors_defs)
  from write_queries[of ?D "sock in_flight" ?C established success 5 6 ?w' "[call a_read]" ?v]
    1 2 3 4 5 6 7 8 9
  show ?thesis by simp
qed

subsection \<open>ReportError\<close>

text \<open>
  What \<open>ReportError\<close> does, given that the four tokens of the socket have been allocated:
  it cancels the four, clears both busy flags, closes both directions, posts one
  continuation under a new token, and leaves the state as it is.
\<close>

lemma ReportError_effect:
  assumes "state (sock w) \<noteq> Closed"
      and "read_cancelable (sock w) < allocated (tokens w)"
      and "write_cancelable (sock w) < allocated (tokens w)"
      and "connect_cancelable (sock w) < allocated (tokens w)"
      and "report_cancelable (sock w) < allocated (tokens w)"
  shows "\<exists>c w'. ReportError ec handler w = Inr (c, w')
     \<and> canceled (tokens w') (read_cancelable (sock w))
     \<and> canceled (tokens w') (write_cancelable (sock w))
     \<and> canceled (tokens w') (connect_cancelable (sock w))
     \<and> canceled (tokens w') (report_cancelable (sock w))
     \<and> read_closed (sock w') \<and> write_closed (sock w')
     \<and> \<not> reading (sock w') \<and> \<not> writing (sock w')
     \<and> state (sock w') = state (sock w)
     \<and> pending w' = pending w @ [Some (Queued (ReportErrorLambda handler c))]
     \<and> trace w' = trace w @ [post]"
  using assms
  by (simp add: ReportError_def new_Cancelable_def Let_def canceled_def Cancel_def)

text \<open>
  Claim C2 says that after \<open>ReportError\<close> the state is eventually \<open>Closed\<close>. On an
  established socket, once the acknowledgement of \<open>ReportError\<close> has run, the state is
  still \<open>Established\<close>, no continuation is waiting, and so no completion can run that
  would change it.
\<close>

theorem ReportError_leaves_state:
  "ends_in Established
     (handshake @ [call (op_ReportError ConnectionReset 5), completion 2 posted]) fresh
   \<and> pending (after (handshake @ [call (op_ReportError ConnectionReset 5),
                                  completion 2 posted]) fresh) = [None, None, None]
   \<and> (\<forall>i r. complete i r (after (handshake @ [call (op_ReportError ConnectionReset 5),
                                  completion 2 posted]) fresh) = Inl NotPending)"
proof -
  let ?w = "after (handshake @ [call (op_ReportError ConnectionReset 5),
                                  completion 2 posted]) fresh"
  have 1: "ends_in Established
     (handshake @ [call (op_ReportError ConnectionReset 5), completion 2 posted]) fresh"
    by (simp add: ends_in_def eval_defs)
  have 2: "pending ?w = [None, None, None]"
    by (simp add: eval_defs)
  have 3: "complete i r ?w = Inl NotPending" for i r
  proof (cases "i < length (pending ?w)")
    case True
    with 2 have "pending ?w ! i = None" by (intro all_none) simp_all
    then show ?thesis by (simp add: complete_def)
  next
    case False
    then show ?thesis by (simp add: complete_def)
  qed
  from 1 2 3 show ?thesis by blast
qed

end
